theory Spec2Isabelle
  imports Complex_Main
begin

unbundle bit_operations_syntax

section \<open>Values and numbers\<close>

text \<open>
  The engine is written in TypeScript; its numbers are IEEE doubles.  The embedding
  idealises a finite double as a \<^typ>\<open>real\<close> (no rounding, no infinities) and keeps
  the two non-numbers the code can produce on its own, \<open>undefined\<close> and \<open>NaN\<close>, as
  values.  A number that may be \<open>NaN\<close> is a \<^typ>\<open>real option\<close> (\<open>None\<close> is \<open>NaN\<close>).
  \<open>Pt x y\<close> is an object with the two fields \<open>x\<close> and \<open>y\<close>, \<open>Arr\<close> an array.
\<close>

datatype jsval = Undefined | NaN | Num real | Pt jsval jsval | Arr "jsval list"

definition num :: "real option \<Rightarrow> jsval" where
  "num r = (case r of None \<Rightarrow> NaN | Some x \<Rightarrow> Num x)"

text \<open>
  \<open>ToNumber\<close>: \<open>undefined\<close> and plain objects give \<open>NaN\<close>; an array goes through its
  string form, so \<open>[]\<close> is 0, a one-element array is its element (an \<open>undefined\<close> element
  prints as the empty string) and a longer array, whose string holds a comma, is \<open>NaN\<close>.
\<close>

fun to_number :: "jsval \<Rightarrow> real option" where
  "to_number Undefined = None"
| "to_number NaN = None"
| "to_number (Num r) = Some r"
| "to_number (Pt a b) = None"
| "to_number (Arr []) = Some 0"
| "to_number (Arr [v]) = (case v of Undefined \<Rightarrow> Some 0 | _ \<Rightarrow> to_number v)"
| "to_number (Arr (v # u # vs)) = None"

definition nsub :: "real option \<Rightarrow> real option \<Rightarrow> real option" where
  "nsub a b = (case (a, b) of (Some x, Some y) \<Rightarrow> Some (x - y) | _ \<Rightarrow> None)"

definition nadd :: "real option \<Rightarrow> real option \<Rightarrow> real option" where
  "nadd a b = (case (a, b) of (Some x, Some y) \<Rightarrow> Some (x + y) | _ \<Rightarrow> None)"

definition nmul :: "real option \<Rightarrow> real option \<Rightarrow> real option" where
  "nmul a b = (case (a, b) of (Some x, Some y) \<Rightarrow> Some (x * y) | _ \<Rightarrow> None)"

text \<open>Binary \<open>-\<close> and unary \<open>-\<close> convert their operands with \<open>ToNumber\<close>.\<close>

definition jsub :: "jsval \<Rightarrow> jsval \<Rightarrow> jsval" where
  "jsub a b = num (nsub (to_number a) (to_number b))"

definition jneg :: "jsval \<Rightarrow> jsval" where
  "jneg a = num (map_option uminus (to_number a))"

text \<open>
  Binary \<open>+\<close> as used by the shake strategy, \<open>ease.start.x + random(ease.to)\<close>: the
  right operand is always a number, the left one a coordinate of a container (a
  number, \<open>undefined\<close> or \<open>NaN\<close>), so the sum is numeric.
\<close>

definition jadd :: "jsval \<Rightarrow> real option \<Rightarrow> jsval" where
  "jadd a b = num (nadd (case a of Num x \<Rightarrow> Some x | _ \<Rightarrow> None) b)"

text \<open>
  Reading the field \<open>x\<close> or \<open>y\<close> of a value; a number or an array has neither.  The
  code never reads them from \<open>undefined\<close> itself, which would raise a \<open>TypeError\<close>: the
  values it reads them from are the start, goal and delta of position and shake
  bindings and the supplied value, none of which is \<open>undefined\<close>.
\<close>

fun px :: "jsval \<Rightarrow> jsval" where
  "px (Pt a b) = a"
| "px v = Undefined"

fun py :: "jsval \<Rightarrow> jsval" where
  "py (Pt a b) = b"
| "py v = Undefined"

definition Math_floor :: "real option \<Rightarrow> real option" where
  "Math_floor r = map_option (\<lambda>x. of_int \<lfloor>x\<rfloor>) r"

definition trunc :: "real \<Rightarrow> int" where
  "trunc x = (if 0 \<le> x then \<lfloor>x\<rfloor> else \<lceil>x\<rceil>)"

text \<open>
  The remainder operator \<open>%\<close> on numbers truncates the quotient towards zero, so the
  result has the sign of the dividend.  The engine only divides by \<open>2 * Math.PI\<close>.
\<close>

definition js_rem :: "real \<Rightarrow> real \<Rightarrow> real" where
  "js_rem a n = a - n * of_int (trunc (a / n))"

text \<open>\<open>ToInt32\<close> and the 32-bit operators \<open>>>\<close>, \<open><<\<close>, \<open>&\<close>, \<open>|\<close>.\<close>

definition to_int32 :: "real option \<Rightarrow> int" where
  "to_int32 r = (case r of None \<Rightarrow> 0 | Some x \<Rightarrow> signed_take_bit 31 (trunc x))"

definition shr :: "int \<Rightarrow> nat \<Rightarrow> int" where
  "shr a n = drop_bit n a"

definition shl :: "int \<Rightarrow> nat \<Rightarrow> int" where
  "shl a n = signed_take_bit 31 (push_bit n a)"

text \<open>
  \<open>Math.atan2(y, x)\<close> is a function of the platform: the angle of the point \<open>(x, y)\<close>
  in \<open>[-\<pi>, \<pi>]\<close>, with \<open>atan2(0, 0) = 0\<close>.
\<close>

definition atan2 :: "real \<Rightarrow> real \<Rightarrow> real" where
  "atan2 y x =
     (if 0 < x then arctan (y / x)
      else if x < 0 \<and> 0 \<le> y then arctan (y / x) + pi
      else if x < 0 then arctan (y / x) - pi
      else if 0 < y then pi / 2
      else if y < 0 then - (pi / 2)
      else 0)"

definition Math_atan2 :: "jsval \<Rightarrow> jsval \<Rightarrow> real option" where
  "Math_atan2 y x =
     (case (to_number y, to_number x) of (Some b, Some a) \<Rightarrow> Some (atan2 b a) | _ \<Rightarrow> None)"

section \<open>Easing.shortestAngle\<close>

definition mod_js :: "real \<Rightarrow> real \<Rightarrow> real" where
  "mod_js a n = js_rem (js_rem a n + n) n"

definition PI_2 :: real where
  "PI_2 = pi * 2"

definition shortestAngle :: "real \<Rightarrow> real \<Rightarrow> real" where
  "shortestAngle start finish =
     (let diff0 = js_rem \<bar>start - finish\<bar> PI_2;
          diff = (if diff0 > pi then PI_2 - diff0 else diff0);
          simple = finish - start;
          sign = (if mod_js (simple + pi) PI_2 - pi > 0 then 1 else - 1)
      in diff * sign)"

text \<open>
  The callers pass values read from a container; every use of the two arguments inside
  the function is arithmetic, so a non-number makes the result \<open>NaN\<close>.
\<close>

definition shortestAngleJ :: "jsval \<Rightarrow> real option \<Rightarrow> real option" where
  "shortestAngleJ start finish =
     (case (to_number start, finish) of
        (Some s, Some f) \<Rightarrow> Some (shortestAngle s f)
      | _ \<Rightarrow> None)"

section \<open>Target objects, bindings and sessions\<close>

text \<open>
  A target is a \<open>PIXI.Container\<close>: named fields (\<open>x\<close>, \<open>y\<close>, \<open>rotation\<close>, \<open>tint\<close>,
  \<open>alpha\<close>, ...) read and written by name, the two point-valued sub-objects \<open>scale\<close> and
  \<open>skew\<close> that every container carries, and the liveness flag \<open>_destroyed\<close>.  Targets
  are shared mutable objects, so they live in a store indexed by reference.
\<close>

record element =
  el_field :: "string \<Rightarrow> jsval"
  el_scale :: "jsval \<times> jsval"
  el_skew :: "jsval \<times> jsval"
  el_destroyed :: bool

datatype coord = X | Y

text \<open>
  The sub-object is selected by name.  The code derives the name from the entries
  \<open>scaleX\<close>, \<open>scaleY\<close>, \<open>skewX\<close>, \<open>skewY\<close>, \<open>scale\<close> and \<open>skew\<close>, so no other
  name occurs.
\<close>

definition get_point :: "element \<Rightarrow> string \<Rightarrow> jsval \<times> jsval" where
  "get_point el name =
     (if name = ''scale'' then el_scale el
      else if name = ''skew'' then el_skew el
      else (Undefined, Undefined))"

definition set_point :: "string \<Rightarrow> (jsval \<times> jsval \<Rightarrow> jsval \<times> jsval) \<Rightarrow> element \<Rightarrow> element" where
  "set_point name f el =
     (if name = ''scale'' then el\<lparr>el_scale := f (el_scale el)\<rparr>
      else if name = ''skew'' then el\<lparr>el_skew := f (el_skew el)\<rparr>
      else el)"

definition set_field :: "string \<Rightarrow> jsval \<Rightarrow> element \<Rightarrow> element" where
  "set_field name v el = el\<lparr>el_field := (el_field el)(name := v)\<rparr>"

text \<open>
  The per-binding update closure chosen at registration, with what it captures; the
  fields of interface \<open>Ease\<close> (the binding) carry the prefix \<open>b_\<close>.
\<close>

datatype updater =
    UCoord string coord
  | UTint "jsval list"
  | UBlend "jsval list"
  | UShake
  | UPosition
  | UPoint string
  | UOne string

record ease =
  b_element :: nat
  b_entry :: string
  b_update :: updater
  b_start :: jsval
  b_to :: jsval
  b_delta :: jsval

text \<open>
  The curve is an injected black box.  It receives whatever the binding holds as
  \<open>start\<close> and \<open>delta\<close> and returns a number.
\<close>

type_synonym curve = "real \<Rightarrow> jsval \<Rightarrow> jsval \<Rightarrow> real \<Rightarrow> real option"

text \<open>
  \<open>repeat\<close> is a boolean or a number; an absent \<open>repeat\<close> or \<open>reverse\<close> behaves as
  \<open>false\<close> and an absent \<open>wait\<close> as 0 in every test the code makes.
\<close>

datatype repeat_opt = RBool bool | RNum real

fun truthy_repeat :: "repeat_opt \<Rightarrow> bool" where
  "truthy_repeat (RBool b) = b"
| "truthy_repeat (RNum n) = (n \<noteq> 0)"

fun dec_repeat :: "repeat_opt \<Rightarrow> repeat_opt" where
  "dec_repeat (RNum n) = RNum (n - 1)"
| "dec_repeat (RBool b) = RNum ((if b then 1 else 0) - 1)"

record add_options =
  o_ease :: curve
  o_duration :: real
  o_reverse :: bool
  o_repeat :: repeat_opt
  o_wait :: real

record easing =
  s_elements :: "nat list"
  s_eases :: "ease list"
  s_options :: add_options
  s_time :: real

text \<open>
  The value supplied for a property: a number, an object with \<open>x\<close> and \<open>y\<close>, or an
  array.
\<close>

datatype param = PNum real | PPt jsval jsval | PArr "jsval list"

fun val_of :: "param \<Rightarrow> jsval" where
  "val_of (PNum r) = Num r"
| "val_of (PPt a b) = Pt a b"
| "val_of (PArr vs) = Arr vs"

subsection \<open>Easing.addParam\<close>

definition addParam :: "element \<Rightarrow> nat \<Rightarrow> string \<Rightarrow> param \<Rightarrow> ease" where
  "addParam el element entry param =
     (let p = val_of param in
      if entry = ''scaleX'' \<or> entry = ''skewX'' then
        (let name = butlast entry; start = fst (get_point el name) in
         \<lparr>b_element = element, b_entry = entry, b_update = UCoord name X,
          b_start = start, b_to = p, b_delta = jsub p start\<rparr>)
      else if entry = ''scaleY'' \<or> entry = ''skewY'' then
        (let name = butlast entry; start = snd (get_point el name) in
         \<lparr>b_element = element, b_entry = entry, b_update = UCoord name Y,
          b_start = start, b_to = p, b_delta = jsub p start\<rparr>)
      else if entry = ''tint'' \<or> entry = ''blend'' then
        (let colors = (case param of PArr cs \<Rightarrow> cs | _ \<Rightarrow> [el_field el ''tint'', p]);
             to = Num (real (length colors)) in
         \<lparr>b_element = element, b_entry = entry,
          b_update = (if entry = ''tint'' then UTint colors else UBlend colors),
          b_start = Num 0, b_to = to, b_delta = to\<rparr>)
      else if entry = ''shake'' then
        \<lparr>b_element = element, b_entry = entry, b_update = UShake,
         b_start = Pt (el_field el ''x'') (el_field el ''y''), b_to = p, b_delta = Undefined\<rparr>
      else if entry = ''position'' then
        (let start = Pt (el_field el ''x'') (el_field el ''y'');
             to = Pt (px p) (py p) in
         \<lparr>b_element = element, b_entry = entry, b_update = UPosition,
          b_start = start, b_to = to,
          b_delta = Pt (jsub (px to) (px start)) (jsub (py to) (py start))\<rparr>)
      else if entry = ''skew'' \<or> entry = ''scale'' then
        (let start = fst (get_point el entry) in
         \<lparr>b_element = element, b_entry = entry, b_update = UPoint entry,
          b_start = start, b_to = p, b_delta = jsub p start\<rparr>)
      else if entry = ''face'' then
        (let start = el_field el ''rotation'';
             to = num (shortestAngleJ start
                    (Math_atan2 (jsub (py p) (el_field el ''y'')) (jsub (px p) (el_field el ''x''))))
         in \<lparr>b_element = element, b_entry = entry, b_update = UOne ''rotation'',
             b_start = start, b_to = to, b_delta = jsub to start\<rparr>)
      else
        (let start = el_field el entry in
         \<lparr>b_element = element, b_entry = entry, b_update = UOne entry,
          b_start = start, b_to = p, b_delta = jsub p start\<rparr>))"

subsection \<open>The per-property update strategies\<close>

definition curve_at :: "easing \<Rightarrow> jsval \<Rightarrow> jsval \<Rightarrow> real option" where
  "curve_at s start delta =
     o_ease (s_options s) (s_time s) start delta (o_duration (s_options s))"

definition updateOne :: "easing \<Rightarrow> ease \<Rightarrow> string \<Rightarrow> element \<Rightarrow> element" where
  "updateOne s b entry el = set_field entry (num (curve_at s (b_start b) (b_delta b))) el"

definition updatePoint :: "easing \<Rightarrow> ease \<Rightarrow> string \<Rightarrow> element \<Rightarrow> element" where
  "updatePoint s b entry el =
     (let v = num (curve_at s (b_start b) (b_delta b)) in set_point entry (\<lambda>p. (v, v)) el)"

definition updatePosition :: "easing \<Rightarrow> ease \<Rightarrow> element \<Rightarrow> element" where
  "updatePosition s b el =
     set_field ''y'' (num (curve_at s (py (b_start b)) (py (b_delta b))))
       (set_field ''x'' (num (curve_at s (px (b_start b)) (px (b_delta b)))) el)"

definition updateCoord :: "easing \<Rightarrow> ease \<Rightarrow> string \<Rightarrow> coord \<Rightarrow> element \<Rightarrow> element" where
  "updateCoord s b name c el =
     (let v = num (curve_at s (b_start b) (b_delta b)) in
      set_point name (\<lambda>p. case c of X \<Rightarrow> (v, snd p) | Y \<Rightarrow> (fst p, v)) el)"

text \<open>
  \<open>colors[index]\<close>: an index that is not one of \<open>0 .. length - 1\<close> reads \<open>undefined\<close>.
\<close>

definition lookup :: "jsval list \<Rightarrow> real option \<Rightarrow> jsval" where
  "lookup colors idx =
     (case idx of
        None \<Rightarrow> Undefined
      | Some r \<Rightarrow>
          if 0 \<le> r \<and> r < real (length colors) \<and> r = of_int \<lfloor>r\<rfloor>
          then colors ! nat \<lfloor>r\<rfloor> else Undefined)"

definition tint_index :: "easing \<Rightarrow> ease \<Rightarrow> jsval list \<Rightarrow> real option" where
  "tint_index s b colors =
     (let index = Math_floor (curve_at s (b_start b) (b_delta b)) in
      if index = Some (real (length colors)) then Some (real (length colors) - 1) else index)"

definition updateTint :: "easing \<Rightarrow> ease \<Rightarrow> jsval list \<Rightarrow> element \<Rightarrow> element" where
  "updateTint s b colors el = set_field ''tint'' (lookup colors (tint_index s b colors)) el"

text \<open>\<open>blend_color\<close> is the value \<open>updateBlend\<close> computes for the tint.\<close>

definition blend_color :: "easing \<Rightarrow> ease \<Rightarrow> jsval list \<Rightarrow> jsval" where
  "blend_color s b colors =
     (let calc = curve_at s (b_start b) (b_delta b);
          len = Some (real (length colors));
          index0 = Math_floor calc;
          index = (if index0 = len then nsub len (Some 1) else index0);
          next0 = nadd index (Some 1);
          next = (if next0 = len
                  then (if o_reverse (s_options s) then nsub index (Some 1)
                        else if truthy_repeat (o_repeat (s_options s)) then Some 0
                        else index)
                  else next0);
          percent = nsub calc index;
          color1 = to_int32 (to_number (lookup colors index));
          color2 = to_int32 (to_number (lookup colors next));
          r1 = shr color1 16;
          g1 = shr color1 8 AND 255;
          b1 = color1 AND 255;
          r2 = shr color2 16;
          g2 = shr color2 8 AND 255;
          b2 = color2 AND 255;
          percent1 = nsub (Some 1) percent;
          r = nadd (nmul percent1 (Some (of_int r1))) (nmul percent (Some (of_int r2)));
          g = nadd (nmul percent1 (Some (of_int g1))) (nmul percent (Some (of_int g2)));
          bl = nadd (nmul percent1 (Some (of_int b1))) (nmul percent (Some (of_int b2)))
      in Num (of_int (shl (to_int32 r) 16 OR shl (to_int32 g) 8 OR to_int32 bl)))"

definition updateBlend :: "easing \<Rightarrow> ease \<Rightarrow> jsval list \<Rightarrow> element \<Rightarrow> element" where
  "updateBlend s b colors el = set_field ''tint'' (blend_color s b colors) el"

text \<open>
  \<open>Math.random()\<close> is the \<open>k\<close>-th value of a stream supplied by the environment; each
  call of the inner function \<open>random\<close> consumes one value.
\<close>

definition random :: "real \<Rightarrow> jsval \<Rightarrow> real option" where
  "random u n =
     nsub (Math_floor (nmul (Some u) (to_number n)))
          (Math_floor (map_option (\<lambda>x. x / 2) (to_number n)))"

definition updateShake :: "real \<Rightarrow> real \<Rightarrow> ease \<Rightarrow> element \<Rightarrow> element" where
  "updateShake u1 u2 b el =
     set_field ''y'' (jadd (py (b_start b)) (random u2 (b_to b)))
       (set_field ''x'' (jadd (px (b_start b)) (random u1 (b_to b))) el)"

subsection \<open>Easing.complete, Easing.reverse, Easing.repeat\<close>

definition complete :: "ease \<Rightarrow> element \<Rightarrow> element" where
  "complete b el =
     (if b_entry b = ''shake''
      then set_field ''y'' (py (b_start b)) (set_field ''x'' (px (b_start b)) el)
      else el)"

definition reverse :: "ease \<Rightarrow> ease" where
  "reverse b =
     (if b_entry b = ''position'' then
        (let swapX = px (b_to b); swapY = py (b_to b) in
         b\<lparr>b_to := Pt (px (b_start b)) (py (b_start b)),
           b_start := Pt swapX swapY,
           b_delta := Pt (jneg (px (b_delta b))) (jneg (py (b_delta b)))\<rparr>)
      else
        (let swap = b_to b in
         b\<lparr>b_to := b_start b, b_start := swap, b_delta := jneg (b_delta b)\<rparr>))"

definition repeat :: "ease \<Rightarrow> element \<Rightarrow> element" where
  "repeat b el =
     (if b_entry b = ''skewX'' then el\<lparr>el_skew := (b_start b, snd (el_skew el))\<rparr>
      else if b_entry b = ''skewY'' then el\<lparr>el_skew := (fst (el_skew el), b_start b)\<rparr>
      else if b_entry b = ''skew'' then el\<lparr>el_skew := (b_start b, b_start b)\<rparr>
      else if b_entry b = ''scaleX'' then el\<lparr>el_scale := (b_start b, snd (el_scale el))\<rparr>
      else if b_entry b = ''scaleY'' then el\<lparr>el_scale := (fst (el_scale el), b_start b)\<rparr>
      else if b_entry b = ''scale'' then el\<lparr>el_scale := (b_start b, b_start b)\<rparr>
      else if b_entry b = ''position''
        then set_field ''y'' (py (b_start b)) (set_field ''x'' (px (b_start b)) el)
      else set_field (b_entry b) (b_start b) el)"

section \<open>The world: stores, the group, the environment\<close>

text \<open>
  Class \<open>Ease\<close> of \<open>ease.ts\<close> is the group.  Its options after the constructor has
  merged the defaults carry the prefix \<open>eo_\<close>; \<open>eo_ticker\<close> says whether a ticker was
  injected.  The group's own default curve is a function, as in \<open>defaultEaseOptions\<close>;
  a curve given by name is resolved through the external table \<open>penner\<close> when a
  session is added.  \<open>reverse\<close>, \<open>repeat\<close> and \<open>wait\<close> reach a session through the
  options of the call that adds it.
\<close>

record ease_options =
  eo_duration :: real
  eo_ease :: curve
  eo_useRAF :: bool
  eo_ticker :: bool
  eo_maxFrame :: real

record ctor_options =
  k_duration :: "real option"
  k_ease :: "curve option"
  k_useRAF :: "bool option"
  k_ticker :: bool
  k_maxFrame :: "real option"

datatype ease_spec = Named string | Fn curve

record call_options =
  c_duration :: "real option"
  c_ease :: "ease_spec option"
  c_reverse :: "bool option"
  c_repeat :: "repeat_opt option"
  c_wait :: "real option"

record ease_group =
  g_options :: ease_options
  g_easings :: "nat list"
  g_empty :: bool
  g_handleRAF :: "nat option"
  g_lastTime :: "real option"

datatype event = EvWait | EvWaitEnd | EvEach | EvReverse | EvRepeat | EvComplete

datatype src = Session nat | Group

text \<open>
  Sessions and targets are objects, held in stores indexed by reference.  The
  environment is part of the world: the frame requests that are outstanding, how often
  the group's \<open>update\<close> is registered on the ticker, the ticker's \<open>elapsedMS\<close>, the
  reading of \<open>Date.now()\<close>, the stream behind \<open>Math.random()\<close> and the curve table.
  \<open>log\<close> records every notification emitted.
\<close>

record world =
  els :: "nat \<Rightarrow> element"
  sess :: "nat \<Rightarrow> easing"
  grp :: ease_group
  next_session :: nat
  raf_pending :: "nat list"
  next_handle :: nat
  ticker_listeners :: nat
  ticker_elapsedMS :: real
  clock :: real
  rnd :: "nat \<Rightarrow> real"
  rnd_pos :: nat
  penner :: "string \<Rightarrow> curve"
  log :: "(src \<times> event) list"

text \<open>
  What a listener may do when it is notified: call the group's \<open>add\<close>, \<open>destroy\<close>,
  \<open>removeEase\<close> or \<open>removeAll\<close>, call \<open>remove\<close> on a session, or destroy a target.
  A listener that re-enters \<open>update\<close> is not modelled.
\<close>

datatype remove_args = NoArgs | Args "nat option" "string list option"

datatype cmd =
    CAdd "nat list" "(string \<times> param) list" call_options
  | CDestroy
  | CRemoveEase nat "string list option"
  | CRemoveAll
  | CRemove nat remove_args
  | CDestroyTarget nat

type_synonym handler = "world \<Rightarrow> src \<Rightarrow> event \<Rightarrow> cmd list"

subsection \<open>Easing: constructor and remove\<close>

text \<open>
  \<open>params\<close> lists the supplied properties in the order in which \<open>for ... in\<close> visits
  them; the constructor registers each property on each target in turn.
\<close>

definition Easing_new :: "(nat \<Rightarrow> element) \<Rightarrow> nat list \<Rightarrow> (string \<times> param) list \<Rightarrow> add_options \<Rightarrow> easing" where
  "Easing_new store elements params options =
     \<lparr>s_elements = elements,
      s_eases = concat (map (\<lambda>(entry, v). map (\<lambda>c. addParam (store c) c entry v) elements) params),
      s_options = options,
      s_time = 0\<rparr>"

definition Easing_remove :: "remove_args \<Rightarrow> easing \<Rightarrow> bool \<times> easing" where
  "Easing_remove args s =
     (let eases' =
        (case args of
           NoArgs \<Rightarrow> []
         | Args element params \<Rightarrow>
             filter (\<lambda>b. \<not> ((element = None \<or> element = Some (b_element b)) \<and>
                             (case params of None \<Rightarrow> True | Some ps \<Rightarrow> b_entry b \<in> set ps)))
                    (s_eases s))
      in (eases' = [], s\<lparr>s_eases := eases'\<rparr>))"

subsection \<open>Frame requests\<close>

definition request_frame :: "world \<Rightarrow> world" where
  "request_frame w =
     w\<lparr>grp := (grp w)\<lparr>g_handleRAF := Some (next_handle w)\<rparr>,
       raf_pending := raf_pending w @ [next_handle w],
       next_handle := next_handle w + 1\<rparr>"

definition handle_truthy :: "nat option \<Rightarrow> bool" where
  "handle_truthy h = (case h of None \<Rightarrow> False | Some n \<Rightarrow> n \<noteq> 0)"

definition cancel_if_armed :: "world \<Rightarrow> world" where
  "cancel_if_armed w =
     (if eo_useRAF (g_options (grp w)) \<and> handle_truthy (g_handleRAF (grp w))
      then w\<lparr>raf_pending := removeAll (the (g_handleRAF (grp w))) (raf_pending w),
             grp := (grp w)\<lparr>g_handleRAF := None\<rparr>\<rparr>
      else w)"

subsection \<open>Ease: constructor, add, face, removeEase, removeAll, destroy\<close>

definition Ease_new :: "ctor_options \<Rightarrow> world \<Rightarrow> world" where
  "Ease_new options w =
     (let opts = \<lparr>eo_duration = (case k_duration options of None \<Rightarrow> 1000 | Some d \<Rightarrow> d),
                  eo_ease = (case k_ease options of None \<Rightarrow> penner w ''easeInOutSine'' | Some f \<Rightarrow> f),
                  eo_useRAF = (case k_useRAF options of None \<Rightarrow> True | Some u \<Rightarrow> u),
                  eo_ticker = k_ticker options,
                  eo_maxFrame = (case k_maxFrame options of None \<Rightarrow> 1000 / 60 | Some m \<Rightarrow> m)\<rparr>;
          w1 = w\<lparr>grp := \<lparr>g_options = opts, g_easings = [], g_empty = True,
                         g_handleRAF = None, g_lastTime = None\<rparr>\<rparr>
      in if eo_ticker opts then w1\<lparr>ticker_listeners := ticker_listeners w1 + 1\<rparr> else w1)"

definition Ease_add :: "nat list \<Rightarrow> (string \<times> param) list \<Rightarrow> call_options \<Rightarrow> world \<Rightarrow> nat \<times> world" where
  "Ease_add elements params options w =
     (let g = grp w;
          myOptions =
            \<lparr>o_ease = (case c_ease options of
                         None \<Rightarrow> eo_ease (g_options g)
                       | Some (Named n) \<Rightarrow> penner w n
                       | Some (Fn f) \<Rightarrow> f),
             o_duration = (case c_duration options of None \<Rightarrow> eo_duration (g_options g) | Some d \<Rightarrow> d),
             o_reverse = (case c_reverse options of None \<Rightarrow> False | Some r \<Rightarrow> r),
             o_repeat = (case c_repeat options of None \<Rightarrow> RBool False | Some r \<Rightarrow> r),
             o_wait = (case c_wait options of None \<Rightarrow> 0 | Some t \<Rightarrow> t)\<rparr>;
          easing = next_session w;
          w1 = w\<lparr>sess := (sess w)(easing := Easing_new (els w) elements params myOptions),
                 next_session := easing + 1,
                 grp := g\<lparr>g_easings := g_easings g @ [easing]\<rparr>\<rparr>;
          w2 = (if g_empty g \<and> eo_useRAF (g_options g)
                then (let w' = request_frame w1 in w'\<lparr>grp := (grp w')\<lparr>g_lastTime := Some (clock w')\<rparr>\<rparr>)
                else w1)
      in (easing, w2\<lparr>grp := (grp w2)\<lparr>g_empty := False\<rparr>\<rparr>))"

text \<open>
  \<open>face\<close> hands the angle it computed on as the goal of a \<open>rotation\<close> property and
  stores the quotient as the duration.  Both are finite numbers here: the result is
  \<open>None\<close> where the rotation or a coordinate is no number or the speed is 0, the cases
  in which JavaScript computes \<open>NaN\<close> or an infinity.
\<close>

definition Ease_face :: "nat \<Rightarrow> jsval \<times> jsval \<Rightarrow> real \<Rightarrow> call_options \<Rightarrow> world \<Rightarrow> (nat \<times> world) option" where
  "Ease_face element target speed options w =
     (let el = els w element;
          shortest = shortestAngleJ (el_field el ''rotation'')
                       (Math_atan2 (jsub (snd target) (el_field el ''y''))
                                   (jsub (fst target) (el_field el ''x'')))
      in case (shortest, to_number (el_field el ''rotation'')) of
           (Some sa, Some rot) \<Rightarrow>
             if speed = 0 then None
             else (let duration = \<bar>sa - rot\<bar> / speed in
                   Some (Ease_add [element] [(''rotation'', PNum sa)]
                           (options\<lparr>c_duration := Some duration\<rparr>) w))
         | _ \<Rightarrow> None)"

text \<open>
  \<open>splice(indexOf(x), 1)\<close>: \<open>indexOf\<close> answers \<open>-1\<close> for an absent element, and
  \<open>splice\<close> counts a negative start from the end of the array.
\<close>

fun indexOf :: "'a list \<Rightarrow> 'a \<Rightarrow> int" where
  "indexOf [] x = - 1"
| "indexOf (y # ys) x = (if y = x then 0 else (let i = indexOf ys x in if i < 0 then - 1 else i + 1))"

definition splice1 :: "int \<Rightarrow> 'a list \<Rightarrow> 'a list" where
  "splice1 start xs =
     (let n = int (length xs);
          i = (if start < 0 then max (n + start) 0 else min start n)
      in take (nat i) xs @ drop (nat i + 1) xs)"

fun removeEase_loop :: "nat \<Rightarrow> string list option \<Rightarrow> nat list \<Rightarrow> world \<Rightarrow> nat list \<times> world" where
  "removeEase_loop element param [] w = ([], w)"
| "removeEase_loop element param (e # es) w =
     (let (gone, s') = Easing_remove (Args (Some element) param) (sess w e);
          (es', w') = removeEase_loop element param es (w\<lparr>sess := (sess w)(e := s')\<rparr>)
      in (if gone then es' else e # es', w'))"

definition removeEase :: "nat \<Rightarrow> string list option \<Rightarrow> world \<Rightarrow> world" where
  "removeEase element param w =
     (let (es, w1) = removeEase_loop element param (g_easings (grp w)) w;
          w2 = w1\<lparr>grp := (grp w1)\<lparr>g_easings := es\<rparr>\<rparr>
      in if es = [] then cancel_if_armed (w2\<lparr>grp := (grp w2)\<lparr>g_empty := True\<rparr>\<rparr>) else w2)"

definition removeAll_sessions :: "world \<Rightarrow> world" where
  "removeAll_sessions w =
     cancel_if_armed (w\<lparr>grp := (grp w)\<lparr>g_easings := [], g_empty := True\<rparr>\<rparr>)"

definition destroy :: "world \<Rightarrow> world" where
  "destroy w =
     (let w1 = removeAll_sessions w in
      if eo_ticker (g_options (grp w1)) then w1\<lparr>ticker_listeners := 0\<rparr>
      else cancel_if_armed w1)"

subsection \<open>Listeners\<close>

fun exec_cmd :: "cmd \<Rightarrow> world \<Rightarrow> world" where
  "exec_cmd (CAdd elements params options) w = snd (Ease_add elements params options w)"
| "exec_cmd CDestroy w = destroy w"
| "exec_cmd (CRemoveEase element param) w = removeEase element param w"
| "exec_cmd CRemoveAll w = removeAll_sessions w"
| "exec_cmd (CRemove sid args) w = w\<lparr>sess := (sess w)(sid := snd (Easing_remove args (sess w sid)))\<rparr>"
| "exec_cmd (CDestroyTarget element) w =
     w\<lparr>els := (els w)(element := (els w element)\<lparr>el_destroyed := True\<rparr>)\<rparr>"

definition with_log :: "(src \<times> event) list \<Rightarrow> world \<Rightarrow> world" where
  "with_log l w = w\<lparr>log := l\<rparr>"

definition emit :: "handler \<Rightarrow> src \<Rightarrow> event \<Rightarrow> world \<Rightarrow> world" where
  "emit h source ev w = fold exec_cmd (h w source ev) (with_log (log w @ [(source, ev)]) w)"

subsection \<open>Easing.update\<close>

definition on_element :: "nat \<Rightarrow> (element \<Rightarrow> element) \<Rightarrow> world \<Rightarrow> world" where
  "on_element r f w = w\<lparr>els := (els w)(r := f (els w r))\<rparr>"

definition on_session :: "nat \<Rightarrow> (easing \<Rightarrow> easing) \<Rightarrow> world \<Rightarrow> world" where
  "on_session sid f w = w\<lparr>sess := (sess w)(sid := f (sess w sid))\<rparr>"

text \<open>\<open>ease.update(ease)\<close>: the closure reads the session's clock and options when it runs.\<close>

definition run_update :: "nat \<Rightarrow> ease \<Rightarrow> world \<Rightarrow> world" where
  "run_update sid b w =
     (let s = sess w sid in
      case b_update b of
        UCoord name c \<Rightarrow> on_element (b_element b) (updateCoord s b name c) w
      | UTint colors \<Rightarrow> on_element (b_element b) (updateTint s b colors) w
      | UBlend colors \<Rightarrow> on_element (b_element b) (updateBlend s b colors) w
      | UShake \<Rightarrow>
          (on_element (b_element b) (updateShake (rnd w (rnd_pos w)) (rnd w (rnd_pos w + 1)) b) w)
            \<lparr>rnd_pos := rnd_pos w + 2\<rparr>
      | UPosition \<Rightarrow> on_element (b_element b) (updatePosition s b) w
      | UPoint entry \<Rightarrow> on_element (b_element b) (updatePoint s b entry) w
      | UOne entry \<Rightarrow> on_element (b_element b) (updateOne s b entry) w)"

text \<open>The first loop of \<open>update\<close>: a binding whose target is destroyed is spliced out.\<close>

fun update_loop :: "nat \<Rightarrow> ease list \<Rightarrow> world \<Rightarrow> ease list \<times> world" where
  "update_loop sid [] w = ([], w)"
| "update_loop sid (b # bs) w =
     (if el_destroyed (els w (b_element b)) then update_loop sid bs w
      else (let (bs', w') = update_loop sid bs (run_update sid b w) in (b # bs', w')))"

definition update_all :: "nat \<Rightarrow> world \<Rightarrow> world" where
  "update_all sid w = fold (run_update sid) (s_eases (sess w sid)) w"

text \<open>
  At a phase boundary the clock is set to the leftover and, when the leftover is not
  0, every binding is updated once more.
\<close>

definition carry_over :: "nat \<Rightarrow> real \<Rightarrow> world \<Rightarrow> world" where
  "carry_over sid leftover w =
     (let w1 = on_session sid (\<lambda>s. s\<lparr>s_time := leftover\<rparr>) w
      in if leftover \<noteq> 0 then update_all sid w1 else w1)"

definition reverse_all :: "nat \<Rightarrow> world \<Rightarrow> world" where
  "reverse_all sid w = on_session sid (\<lambda>s. s\<lparr>s_eases := map reverse (s_eases s)\<rparr>) w"

definition repeat_all :: "nat \<Rightarrow> world \<Rightarrow> world" where
  "repeat_all sid w = fold (\<lambda>b. on_element (b_element b) (repeat b)) (s_eases (sess w sid)) w"

definition complete_all :: "nat \<Rightarrow> world \<Rightarrow> world" where
  "complete_all sid w = fold (\<lambda>b. on_element (b_element b) (complete b)) (s_eases (sess w sid)) w"

definition reverse_phase :: "handler \<Rightarrow> nat \<Rightarrow> real \<Rightarrow> world \<Rightarrow> world" where
  "reverse_phase h sid leftover w =
     (let w3 = carry_over sid leftover (reverse_all sid w);
          w4 = emit h (Session sid) EvReverse w3;
          r = o_repeat (s_options (sess w4 sid))
      in if \<not> truthy_repeat r
         then on_session sid (\<lambda>s. s\<lparr>s_options := (s_options s)\<lparr>o_reverse := False\<rparr>\<rparr>) w4
         else if r \<noteq> RBool True
         then on_session sid (\<lambda>s. s\<lparr>s_options := (s_options s)\<lparr>o_repeat := dec_repeat r\<rparr>\<rparr>) w4
         else w4)"

definition repeat_phase :: "handler \<Rightarrow> nat \<Rightarrow> real \<Rightarrow> world \<Rightarrow> world" where
  "repeat_phase h sid leftover w =
     (let w3 = carry_over sid leftover (repeat_all sid w);
          r = o_repeat (s_options (sess w3 sid));
          w4 = (if r \<noteq> RBool True
                then on_session sid (\<lambda>s. s\<lparr>s_options := (s_options s)\<lparr>o_repeat := dec_repeat r\<rparr>\<rparr>) w3
                else w3)
      in emit h (Session sid) EvRepeat w4)"

definition complete_phase :: "handler \<Rightarrow> nat \<Rightarrow> world \<Rightarrow> world" where
  "complete_phase h sid w = emit h (Session sid) EvComplete (complete_all sid w)"

text \<open>
  \<open>update\<close> from the statement \<open>this.time += elapsed\<close> on.  \<open>first_pass\<close> advances
  and clamps the clock and runs the first loop over the bindings; it returns the
  leftover.
\<close>

definition first_pass :: "nat \<Rightarrow> real \<Rightarrow> world \<Rightarrow> real \<times> world" where
  "first_pass sid elapsed w =
     (let t = s_time (sess w sid) + elapsed;
          d = o_duration (s_options (sess w sid));
          leftover = (if t \<ge> d then t - d else 0);
          w1 = on_session sid (\<lambda>s. s\<lparr>s_time := (if t \<ge> d then d else t)\<rparr>) w;
          (bs, w2) = update_loop sid (s_eases (sess w1 sid)) w1
      in (leftover, on_session sid (\<lambda>s. s\<lparr>s_eases := bs\<rparr>) w2))"

definition advance :: "handler \<Rightarrow> nat \<Rightarrow> real \<Rightarrow> world \<Rightarrow> bool \<times> world" where
  "advance h sid elapsed w =
     (let (leftover, w3) = first_pass sid elapsed w;
          w4 = emit h (Session sid) EvEach w3
      in if s_time (sess w4 sid) \<ge> o_duration (s_options (sess w4 sid)) then
           (if o_reverse (s_options (sess w4 sid)) then (False, reverse_phase h sid leftover w4)
            else if truthy_repeat (o_repeat (s_options (sess w4 sid)))
              then (False, repeat_phase h sid leftover w4)
            else (True, complete_phase h sid w4))
         else (False, w4))"

definition Easing_update :: "handler \<Rightarrow> nat \<Rightarrow> real \<Rightarrow> world \<Rightarrow> bool \<times> world" where
  "Easing_update h sid elapsed w =
     (if s_eases (sess w sid) = [] then (True, w)
      else if o_wait (s_options (sess w sid)) \<noteq> 0 then
        (let wt = o_wait (s_options (sess w sid)) - elapsed;
             w1 = on_session sid (\<lambda>s. s\<lparr>s_options := (s_options s)\<lparr>o_wait := wt\<rparr>\<rparr>) w
         in if wt > 0 then (False, emit h (Session sid) EvWait w1)
            else advance h sid (- wt)
                   (emit h (Session sid) EvWaitEnd
                      (on_session sid (\<lambda>s. s\<lparr>s_options := (s_options s)\<lparr>o_wait := 0\<rparr>\<rparr>) w1)))
      else advance h sid elapsed w)"

text \<open>
  A session driven on its own: one \<open>update\<close> per elapsed-time increment, until an
  update reports \<open>finished\<close>.
\<close>

fun run_session :: "handler \<Rightarrow> nat \<Rightarrow> real list \<Rightarrow> world \<Rightarrow> bool \<times> world" where
  "run_session h sid [] w = (False, w)"
| "run_session h sid (e # es) w =
     (let (finished, w') = Easing_update h sid e w in
      if finished then (True, w') else run_session h sid es w')"

subsection \<open>Ease.update\<close>

fun tick_loop :: "handler \<Rightarrow> real \<Rightarrow> nat list \<Rightarrow> world \<Rightarrow> world" where
  "tick_loop h elapsed [] w = w"
| "tick_loop h elapsed (easing # list) w =
     (let (finished, w1) = Easing_update h easing elapsed w;
          w2 = (if finished
                then w1\<lparr>grp := (grp w1)\<lparr>g_easings :=
                         splice1 (indexOf (g_easings (grp w1)) easing) (g_easings (grp w1))\<rparr>\<rparr>
                else w1)
      in tick_loop h elapsed list w2)"

text \<open>
  \<open>update\<close> first settles the elapsed time: from the ticker, from \<open>Date.now()\<close>, or
  from its argument \<open>arg\<close> when the group has neither a ticker nor \<open>useRAF\<close>.
\<close>

definition read_elapsed :: "real \<Rightarrow> world \<Rightarrow> real \<times> world" where
  "read_elapsed arg w =
     (if eo_ticker (g_options (grp w)) then (ticker_elapsedMS w, w)
      else if eo_useRAF (g_options (grp w)) then
        (clock w - (case g_lastTime (grp w) of None \<Rightarrow> 0 | Some t \<Rightarrow> t),
         w\<lparr>grp := (grp w)\<lparr>g_lastTime := Some (clock w)\<rparr>\<rparr>)
      else (arg, w))"

definition advance_sessions :: "handler \<Rightarrow> real \<Rightarrow> world \<Rightarrow> world" where
  "advance_sessions h elapsed w =
     (if \<not> g_empty (grp w) then
        (let wa = tick_loop h elapsed (g_easings (grp w)) w;
             wb = emit h Group EvEach wa
         in if g_easings (grp wb) = []
            then emit h Group EvComplete (wb\<lparr>grp := (grp wb)\<lparr>g_empty := True\<rparr>\<rparr>)
            else wb)
      else w)"

definition rearm :: "world \<Rightarrow> world" where
  "rearm w =
     (if eo_useRAF (g_options (grp w)) \<and> g_easings (grp w) \<noteq> []
      then request_frame w
      else w\<lparr>grp := (grp w)\<lparr>g_handleRAF := None\<rparr>\<rparr>)"

definition Ease_update :: "handler \<Rightarrow> real \<Rightarrow> world \<Rightarrow> world" where
  "Ease_update h arg w =
     (let (elapsed0, w1) = read_elapsed arg w;
          elapsed = min elapsed0 (eo_maxFrame (g_options (grp w1)))
      in rearm (advance_sessions h elapsed w1))"

text \<open>
  What happens to a group from outside: a call of its interface, an outstanding frame
  request firing at clock reading \<open>now\<close>, or the ticker firing with its \<open>elapsedMS\<close>.
\<close>

datatype op = Call cmd | Frame real | Tick real

fun step :: "handler \<Rightarrow> op \<Rightarrow> world \<Rightarrow> world" where
  "step h (Call c) w = exec_cmd c w"
| "step h (Frame now) w =
     (case raf_pending w of
        [] \<Rightarrow> w
      | r # rs \<Rightarrow> Ease_update h 0 (w\<lparr>raf_pending := rs, clock := now\<rparr>))"
| "step h (Tick ms) w =
     (if ticker_listeners w = 0 then w
      else Ease_update h ms (w\<lparr>ticker_elapsedMS := ms\<rparr>))"

definition run :: "handler \<Rightarrow> op list \<Rightarrow> world \<Rightarrow> world" where
  "run h ops w = fold (step h) ops w"

definition no_listeners :: handler where
  "no_listeners w source ev = []"

section \<open>Notions used to state the properties\<close>

text \<open>
  \<open>timeline\<close> follows the clock of a session through a list of elapsed-time
  increments by arithmetic alone, as the phases are described: an increment first
  serves a pending wait; what is left of it advances the clock; an update whose clock
  reaches the duration passes one phase boundary and carries the leftover into the
  next phase.  From the pending wait, the clock and a count it returns the wait still
  pending, the clock, and the count increased by the number of boundaries passed.

  \<open>lifecycle\<close> lists the \<open>repeat\<close> and \<open>complete\<close> notifications a session has
  emitted, and a session is \<open>live\<close> when it has a binding and none of its targets is
  destroyed.
\<close>

fun timeline :: "real \<Rightarrow> real \<times> real \<times> nat \<Rightarrow> real list \<Rightarrow> real \<times> real \<times> nat" where
  "timeline d (wt, t, k) [] = (wt, t, k)"
| "timeline d (wt, t, k) (e # es) =
     (if wt \<noteq> 0 \<and> wt - e > 0 then timeline d (wt - e, t, k) es
      else (let t' = t + (if wt \<noteq> 0 then e - wt else e)
            in if t' \<ge> d then timeline d (0, t' - d, Suc k) es else timeline d (0, t', k) es))"

definition lifecycle :: "nat \<Rightarrow> world \<Rightarrow> event list" where
  "lifecycle sid w =
     map snd (filter (\<lambda>(s, ev). s = Session sid \<and> (ev = EvRepeat \<or> ev = EvComplete)) (log w))"

definition live :: "nat \<Rightarrow> world \<Rightarrow> bool" where
  "live sid w =
     (s_eases (sess w sid) \<noteq> [] \<and>
      (\<forall>b\<in>set (s_eases (sess w sid)). \<not> el_destroyed (els w (b_element b))))"

text \<open>
  \<open>outside\<close> is the part of the world a session update never touches.
  \<open>lazy_frames\<close> is the invariant of a group without a ticker: at most one frame
  request is outstanding, it is the one the group holds the handle of, and it is
  outstanding only while the group has sessions.
\<close>

definition outside :: "world \<Rightarrow> ease_group \<times> nat list \<times> nat \<times> nat" where
  "outside w = (grp w, raf_pending w, next_handle w, ticker_listeners w)"

definition lazy_frames :: "world \<Rightarrow> bool" where
  "lazy_frames w =
     (let g = grp w in
      \<not> eo_ticker (g_options g) \<and> ticker_listeners w = 0 \<and> next_handle w \<noteq> 0
      \<and> (g_empty g \<longleftrightarrow> g_easings g = [])
      \<and> (raf_pending w = [] \<or>
           (raf_pending w = [the (g_handleRAF g)] \<and> handle_truthy (g_handleRAF g)
            \<and> eo_useRAF (g_options g) \<and> g_easings g \<noteq> [])))"

text \<open>
  A slot is a place of a target a binding writes: a named field, or one coordinate of
  \<open>scale\<close> or \<open>skew\<close>.  \<open>writes\<close> lists the slots the update closure of a binding
  writes and \<open>driven\<close> pairs them with the target.  \<open>written\<close> is the value the
  closure writes, which depends on the session's clock and options only; a binding is
  \<open>steady\<close> when its closure writes that value whatever the target holds, which
  excludes shake (it draws random numbers).

  \<open>curve_driven\<close> describes a binding as \<open>addParam\<close> builds it from numbers for
  every strategy but shake: start and goal are numbers and delta is goal minus start
  (per axis for position); for tint and blend the sequence is not empty and start is
  0, and for blend the first color is an integer below \<open>2^24\<close>.  \<open>start_value\<close> is
  the value a slot has at the start of the animation: the binding's start, its axis
  for position, and for tint and blend the color at the start index.
\<close>

datatype slot = Field string | Sub string coord

fun read_slot :: "slot \<Rightarrow> element \<Rightarrow> jsval" where
  "read_slot (Field n) el = el_field el n"
| "read_slot (Sub name X) el = fst (get_point el name)"
| "read_slot (Sub name Y) el = snd (get_point el name)"

definition writes :: "ease \<Rightarrow> slot list" where
  "writes b =
     (case b_update b of
        UCoord name c \<Rightarrow> [Sub name c]
      | UTint colors \<Rightarrow> [Field ''tint'']
      | UBlend colors \<Rightarrow> [Field ''tint'']
      | UShake \<Rightarrow> [Field ''x'', Field ''y'']
      | UPosition \<Rightarrow> [Field ''x'', Field ''y'']
      | UPoint entry \<Rightarrow> [Sub entry X, Sub entry Y]
      | UOne entry \<Rightarrow> [Field entry])"

definition driven :: "ease \<Rightarrow> (nat \<times> slot) list" where
  "driven b = map (Pair (b_element b)) (writes b)"

fun triple :: "jsval \<Rightarrow> jsval \<Rightarrow> jsval \<Rightarrow> bool" where
  "triple (Num s) (Num g) (Num d) = (d = g - s)"
| "triple s g d = False"

definition curve_driven :: "ease \<Rightarrow> bool" where
  "curve_driven b =
     (case b_update b of
        UCoord name c \<Rightarrow>
          (name = ''scale'' \<or> name = ''skew'') \<and> b_entry b \<noteq> ''position'' \<and> b_entry b \<noteq> ''shake''
          \<and> triple (b_start b) (b_to b) (b_delta b)
      | UTint colors \<Rightarrow>
          colors \<noteq> [] \<and> b_entry b = ''tint''
          \<and> b_start b = Num 0 \<and> triple (b_start b) (b_to b) (b_delta b)
      | UBlend colors \<Rightarrow>
          colors \<noteq> [] \<and> b_entry b = ''blend''
          \<and> b_start b = Num 0 \<and> triple (b_start b) (b_to b) (b_delta b)
          \<and> (case hd colors of
                Num r \<Rightarrow> r = of_int \<lfloor>r\<rfloor> \<and> 0 \<le> r \<and> r < 2 ^ 24
              | _ \<Rightarrow> False)
      | UShake \<Rightarrow> False
      | UPosition \<Rightarrow>
          b_entry b = ''position''
          \<and> triple (px (b_start b)) (px (b_to b)) (px (b_delta b))
          \<and> triple (py (b_start b)) (py (b_to b)) (py (b_delta b))
      | UPoint entry \<Rightarrow>
          (entry = ''scale'' \<or> entry = ''skew'') \<and> b_entry b = entry
          \<and> triple (b_start b) (b_to b) (b_delta b)
      | UOne entry \<Rightarrow>
          b_entry b \<noteq> ''position'' \<and> b_entry b \<noteq> ''shake''
          \<and> triple (b_start b) (b_to b) (b_delta b))"

definition steady :: "ease \<Rightarrow> bool" where
  "steady b =
     (case b_update b of
        UCoord name c \<Rightarrow> name = ''scale'' \<or> name = ''skew''
      | UPoint entry \<Rightarrow> entry = ''scale'' \<or> entry = ''skew''
      | UShake \<Rightarrow> False
      | _ \<Rightarrow> True)"

definition start_value :: "ease \<Rightarrow> slot \<Rightarrow> jsval" where
  "start_value b k =
     (case b_update b of
        UPosition \<Rightarrow> (if k = Field ''x'' then px (b_start b) else py (b_start b))
      | UTint colors \<Rightarrow> lookup colors (to_number (b_start b))
      | UBlend colors \<Rightarrow> lookup colors (to_number (b_start b))
      | _ \<Rightarrow> b_start b)"

definition written :: "easing \<Rightarrow> ease \<Rightarrow> slot \<Rightarrow> jsval" where
  "written s b k =
     (case b_update b of
        UPosition \<Rightarrow>
          (if k = Field ''x'' then num (curve_at s (px (b_start b)) (px (b_delta b)))
           else num (curve_at s (py (b_start b)) (py (b_delta b))))
      | UTint colors \<Rightarrow> lookup colors (tint_index s b colors)
      | UBlend colors \<Rightarrow> blend_color s b colors
      | _ \<Rightarrow> num (curve_at s (b_start b) (b_delta b)))"

text \<open>
  A binding is \<open>restartable\<close> when it is one that \<open>addParam\<close> builds for the scalar,
  single-axis, uniform two-axis and position strategies: for these \<open>repeat\<close> writes
  the binding's start into the slots the update closure writes.  For every other
  entry \<open>repeat\<close> takes its default case and writes a field named after the entry:
  the start index into \<open>tint\<close>, and fields named \<open>blend\<close>, \<open>face\<close> and \<open>shake\<close>,
  which no update closure writes.
\<close>

definition restartable :: "ease \<Rightarrow> bool" where
  "restartable b =
     (case b_update b of
        UCoord name c \<Rightarrow>
          (name = ''scale'' \<or> name = ''skew'')
          \<and> b_entry b = name @ (case c of X \<Rightarrow> ''X'' | Y \<Rightarrow> ''Y'')
      | UPoint entry \<Rightarrow> (entry = ''scale'' \<or> entry = ''skew'') \<and> b_entry b = entry
      | UPosition \<Rightarrow> b_entry b = ''position''
      | UOne entry \<Rightarrow>
          b_entry b = entry
          \<and> entry \<notin> {''scaleX'', ''skewX'', ''scaleY'', ''skewY'', ''tint'', ''blend'', ''shake'',
                         ''position'', ''skew'', ''scale'', ''face''}
      | _ \<Rightarrow> False)"

text \<open>
  A color is a packed integer \<open>0xRRGGBB\<close>.  \<open>red\<close>, \<open>green\<close> and \<open>blue\<close> are its
  channels and \<open>rgb\<close> packs three channels; \<open>mix p a b\<close> is the channel at the
  fraction \<open>p\<close> of the way from \<open>a\<close> to \<open>b\<close>, rounded down, and \<open>blended p c1 c2\<close>
  mixes two colors channel by channel.
\<close>

definition red :: "int \<Rightarrow> int" where
  "red c = c div 65536"

definition green :: "int \<Rightarrow> int" where
  "green c = c div 256 mod 256"

definition blue :: "int \<Rightarrow> int" where
  "blue c = c mod 256"

definition rgb :: "int \<Rightarrow> int \<Rightarrow> int \<Rightarrow> int" where
  "rgb r g b = r * 65536 + g * 256 + b"

definition mix :: "real \<Rightarrow> int \<Rightarrow> int \<Rightarrow> int" where
  "mix p a b = \<lfloor>(1 - p) * of_int a + p * of_int b\<rfloor>"

definition blended :: "real \<Rightarrow> int \<Rightarrow> int \<Rightarrow> int" where
  "blended p c1 c2 =
     rgb (mix p (red c1) (red c2)) (mix p (green c1) (green c2)) (mix p (blue c1) (blue c2))"

section \<open>Example scenes\<close>

text \<open>
  Concrete targets, curves and worlds on which the properties below are evaluated.
  \<open>linear\<close> is Penner's linear curve; \<open>overshoot\<close> starts at \<open>start\<close>, ends at
  \<open>start + delta\<close> and rises above its end value on the way, as the back and elastic
  curves do.
\<close>

definition sprite :: element where
  "sprite =
     \<lparr>el_field = (\<lambda>n. Undefined)(''x'' := Num 0, ''y'' := Num 0, ''rotation'' := Num 0,
                                    ''tint'' := Num 16777215),
      el_scale = (Num 1, Num 1), el_skew = (Num 0, Num 0), el_destroyed = False\<rparr>"

definition linear :: curve where
  "linear t b c d =
     (case (to_number b, to_number c) of
        (Some b', Some c') \<Rightarrow> if d = 0 then None else Some (c' * t / d + b')
      | _ \<Rightarrow> None)"

definition overshoot :: curve where
  "overshoot t b c d =
     (case (to_number b, to_number c) of
        (Some b', Some c') \<Rightarrow>
          if d = 0 then None else Some (b' + c' * (t / d + 4 * (t / d) * (1 - t / d)))
      | _ \<Rightarrow> None)"

definition plain :: "curve \<Rightarrow> real \<Rightarrow> add_options" where
  "plain f d = \<lparr>o_ease = f, o_duration = d, o_reverse = False, o_repeat = RBool False, o_wait = 0\<rparr>"

definition room :: world where
  "room =
     \<lparr>els = (\<lambda>r. sprite),
      sess = (\<lambda>i. \<lparr>s_elements = [], s_eases = [], s_options = plain linear 1000, s_time = 0\<rparr>),
      grp = \<lparr>g_options = \<lparr>eo_duration = 1000, eo_ease = linear, eo_useRAF = False,
                           eo_ticker = False, eo_maxFrame = 1000 / 60\<rparr>,
             g_easings = [], g_empty = True, g_handleRAF = None, g_lastTime = None\<rparr>,
      next_session = 0, raf_pending = [], next_handle = 1, ticker_listeners = 0,
      ticker_elapsedMS = 0, clock = 0, rnd = (\<lambda>k. 9 / 10), rnd_pos = 0,
      penner = (\<lambda>n. linear), log = []\<rparr>"

definition defaults :: ctor_options where
  "defaults = \<lparr>k_duration = None, k_ease = None, k_useRAF = None, k_ticker = False, k_maxFrame = None\<rparr>"

definition no_options :: call_options where
  "no_options = \<lparr>c_duration = None, c_ease = None, c_reverse = None, c_repeat = None, c_wait = None\<rparr>"

definition turned :: world where
  "turned = Ease_new defaults (room\<lparr>els := (els room)(0 := set_field ''rotation'' (Num 1) sprite)\<rparr>)"

definition flashing :: easing where
  "flashing =
     (Easing_new (els room) [0] [(''tint'', PArr [Num 16711680, Num 65280])] (plain overshoot 100))
       \<lparr>s_time := 50\<rparr>"

definition disco :: world where
  "disco = room\<lparr>sess := (sess room)(0 := flashing)\<rparr>"

definition shaking :: world where
  "shaking =
     (let store = (els room)(0 := set_field ''y'' (Num 20) (set_field ''x'' (Num 10) sprite)) in
      room\<lparr>els := store,
           sess := (sess room)(0 := Easing_new store [0] [(''shake'', PNum 10)]
                                      ((plain linear 100)\<lparr>o_repeat := RBool True\<rparr>))\<rparr>)"

definition looping :: world where
  "looping =
     room\<lparr>sess := (sess room)(0 := Easing_new (els room) [0] [(''x'', PNum 100)]
                                  ((plain linear 5)\<lparr>o_repeat := RBool True\<rparr>))\<rparr>"

definition thrice :: world where
  "thrice =
     room\<lparr>sess := (sess room)(0 := Easing_new (els room) [0] [(''x'', PNum 100)]
                                  ((plain linear 10)\<lparr>o_repeat := RNum 3\<rparr>))\<rparr>"

text \<open>
  \<open>orphaned\<close> is the repeating session \<open>looping\<close> after its target has been
  destroyed.  \<open>fading\<close> blends the white target towards the color 255 in a plain
  session, \<open>pulsing\<close> does so in a session that repeats.
\<close>

definition orphaned :: world where
  "orphaned = looping\<lparr>els := (els looping)(0 := sprite\<lparr>el_destroyed := True\<rparr>)\<rparr>"

definition fading :: world where
  "fading =
     room\<lparr>sess := (sess room)(0 := Easing_new (els room) [0] [(''blend'', PNum 255)] (plain linear 100))\<rparr>"

definition pulsing :: world where
  "pulsing =
     room\<lparr>sess := (sess room)(0 := Easing_new (els room) [0] [(''blend'', PNum 255)]
                                  ((plain linear 100)\<lparr>o_repeat := RBool True\<rparr>))\<rparr>"

text \<open>
  Two listeners.  \<open>chain\<close> answers the completion of session 0 by destroying the
  group and adding a new session; \<open>pruning\<close> answers the \<open>each\<close> notification of
  session 0 by removing the bindings of target 1 through \<open>removeEase\<close>.
\<close>

definition chain :: handler where
  "chain w source ev =
     (if source = Session 0 \<and> ev = EvComplete
      then [CDestroy, CAdd [0] [(''y'', PNum 50)] no_options] else [])"

definition pruning :: handler where
  "pruning w source ev =
     (if source = Session 0 \<and> ev = EvEach then [CRemoveEase 1 None] else [])"

definition solo :: world where
  "solo = snd (Ease_add [0] [(''x'', PNum 100)] (no_options\<lparr>c_duration := Some 10\<rparr>)
                 (Ease_new defaults room))"

definition trio :: world where
  "trio = snd (Ease_add [2] [(''x'', PNum 100)] no_options
            (snd (Ease_add [1] [(''x'', PNum 100)] no_options
              (snd (Ease_add [0] [(''x'', PNum 100)] no_options (Ease_new defaults room))))))"

definition carousel :: world where
  "carousel =
     room\<lparr>sess := (sess room)(0 :=
       Easing_new (els room) [0]
         [(''rotation'', PNum 2), (''position'', PPt (Num 30) (Num 40)), (''scaleX'', PNum 2),
          (''blend'', PArr [Num 16711680, Num 65280])]
         ((plain linear 100)\<lparr>o_reverse := True\<rparr>))\<rparr>"

definition blinking :: world where
  "blinking =
     room\<lparr>sess := (sess room)(0 :=
       Easing_new (els room) [0] [(''tint'', PArr [Num 16711680, Num 65280])]
         ((plain linear 100)\<lparr>o_reverse := True\<rparr>))\<rparr>"

section \<open>Properties\<close>

subsection \<open>The remainder and the shortest angle\<close>

lemma js_rem_unique_nonneg:
  assumes n: "0 < n" and a: "0 \<le> a" and x: "0 \<le> x" "x < n" and e: "a = x + n * of_int k"
  shows "js_rem a n = x"
proof -
  have "a / n = x / n + of_int k" using n e by (simp add: field_simps)
  moreover have "\<lfloor>x / n\<rfloor> = 0" using n x by (simp add: floor_eq_iff)
  ultimately have "\<lfloor>a / n\<rfloor> = k" by simp
  moreover have "0 \<le> a / n" using n a by simp
  ultimately show ?thesis using e by (simp add: js_rem_def trunc_def)
qed

lemma js_rem_unique_neg:
  assumes n: "0 < n" and a: "a \<le> 0" and x: "- n < x" "x \<le> 0" and e: "a = x + n * of_int k"
  shows "js_rem a n = x"
proof -
  have "a / n = x / n + of_int k" using n e by (simp add: field_simps)
  moreover have "\<lceil>x / n\<rceil> = 0" using n x by (simp add: ceiling_eq_iff field_simps)
  ultimately have c: "\<lceil>a / n\<rceil> = k" by simp
  have f: "\<lfloor>a / n\<rfloor> = k" if "a = 0" using that c by simp
  have "a / n \<le> 0" using n a by (simp add: field_simps)
  then show ?thesis using e c f by (auto simp add: js_rem_def trunc_def)
qed

lemma floor_mod_exists:
  assumes n: "0 < (n::real)"
  shows "\<exists>k::int. 0 \<le> a - n * of_int k \<and> a - n * of_int k < n"
proof -
  let ?k = "\<lfloor>a / n\<rfloor>"
  have eq: "n * (a / n) = a" using n by simp
  have "of_int ?k \<le> a / n" by linarith
  then have "n * of_int ?k \<le> n * (a / n)" using n by (intro mult_left_mono) simp_all
  then have l: "n * of_int ?k \<le> a" using eq by simp
  have "a / n < of_int ?k + 1" by linarith
  then have "n * (a / n) < n * (of_int ?k + 1)" using n by (intro mult_strict_left_mono) simp_all
  then have u: "a < n * of_int ?k + n" using eq by (simp add: algebra_simps)
  show ?thesis using l u by (intro exI[of _ ?k]) simp
qed

lemma mod_js_unique:
  assumes n: "0 < n" and x: "0 \<le> x" "x < n" and e: "a = x + n * of_int k"
  shows "mod_js a n = x"
proof (cases "0 \<le> a")
  case True
  have 1: "js_rem a n = x" by (rule js_rem_unique_nonneg[OF n True x e])
  have "0 \<le> x + n" "x + n = x + n * of_int 1" using n x by simp_all
  then have 2: "js_rem (x + n) n = x" by (rule js_rem_unique_nonneg[OF n _ x])
  show ?thesis unfolding mod_js_def 1 2 ..
next
  case False
  then have an: "a \<le> 0" by simp
  show ?thesis
  proof (cases "x = 0")
    case True
    have "- n < x" "x \<le> 0" using n True by simp_all
    then have 1: "js_rem a n = x" by (rule js_rem_unique_neg[OF n an _ _ e])
    have "0 \<le> x + n" "x + n = x + n * of_int 1" using n x by simp_all
    then have 2: "js_rem (x + n) n = x" by (rule js_rem_unique_nonneg[OF n _ x])
    show ?thesis unfolding mod_js_def 1 2 ..
  next
    case xn: False
    have e': "a = (x - n) + n * of_int (k + 1)" using e by (simp add: algebra_simps)
    have "- n < x - n" "x - n \<le> 0" using x xn by simp_all
    then have 1: "js_rem a n = x - n" by (rule js_rem_unique_neg[OF n an _ _ e'])
    have "0 \<le> x" "x = x + n * of_int 0" using x by simp_all
    then have 2: "js_rem x n = x" by (rule js_rem_unique_nonneg[OF n _ x])
    show ?thesis unfolding mod_js_def 1 using 2 by simp
  qed
qed

lemma PI_2_pos: "0 < PI_2" by (simp add: PI_2_def)

lemma shortestAngle_char:
  assumes w: "- pi \<le> w" "w < pi" and e: "finish - start = w + PI_2 * of_int k"
  shows "shortestAngle start finish = w"
proof -
  have m: "mod_js (finish - start + pi) PI_2 = w + pi"
    using mod_js_unique[OF PI_2_pos, of "w + pi" "finish - start + pi" k] w e
    by (simp add: PI_2_def)
  define d0 where "d0 = js_rem \<bar>start - finish\<bar> PI_2"
  have d: "(if d0 > pi then PI_2 - d0 else d0) = \<bar>w\<bar>"
  proof (cases "0 \<le> finish - start")
    case True
    then have a: "\<bar>start - finish\<bar> = finish - start" by simp
    show ?thesis
    proof (cases "0 \<le> w")
      case wp: True
      have "d0 = w" unfolding d0_def a
        by (rule js_rem_unique_nonneg[OF PI_2_pos True _ _ e]) (use wp w in \<open>simp_all add: PI_2_def\<close>)
      then show ?thesis using wp w by simp
    next
      case wn: False
      have e': "finish - start = (w + PI_2) + PI_2 * of_int (k - 1)" using e by (simp add: algebra_simps)
      have "d0 = w + PI_2" unfolding d0_def a
        by (rule js_rem_unique_nonneg[OF PI_2_pos True _ _ e']) (use wn w in \<open>simp_all add: PI_2_def\<close>)
      then show ?thesis using wn w by (simp add: PI_2_def)
    qed
  next
    case False
    then have a: "\<bar>start - finish\<bar> = - (finish - start)" and nn: "0 \<le> - (finish - start)" by simp_all
    show ?thesis
    proof (cases "w \<le> 0")
      case wp: True
      have e': "- (finish - start) = (- w) + PI_2 * of_int (- k)" using e by (simp add: algebra_simps)
      have "d0 = - w" unfolding d0_def a
        by (rule js_rem_unique_nonneg[OF PI_2_pos nn _ _ e']) (use wp w in \<open>simp_all add: PI_2_def\<close>)
      then show ?thesis using wp w by simp
    next
      case wn: False
      have e': "- (finish - start) = (PI_2 - w) + PI_2 * of_int (- k - 1)" using e by (simp add: algebra_simps)
      have "d0 = PI_2 - w" unfolding d0_def a
        by (rule js_rem_unique_nonneg[OF PI_2_pos nn _ _ e']) (use wn w in \<open>simp_all add: PI_2_def\<close>)
      then show ?thesis using wn w by (simp add: PI_2_def)
    qed
  qed
  have "shortestAngle start finish = \<bar>w\<bar> * (if w > 0 then 1 else - 1)"
    unfolding shortestAngle_def Let_def m d0_def[symmetric] d by simp
  then show ?thesis by simp
qed

text \<open>
  C5, as the code has it: for every start angle and bearing, the value returned by
  \<open>shortestAngle\<close> lies in the half-open interval \<open>[-\<pi>, \<pi>)\<close> and leads from
  the start angle to an angle congruent to the bearing modulo \<open>2\<pi>\<close>.
\<close>

theorem shortestAngle_half_open:
  "- pi \<le> shortestAngle start bearing \<and> shortestAngle start bearing < pi \<and>
   (\<exists>k::int. start + shortestAngle start bearing = bearing + 2 * pi * of_int k)"
proof -
  obtain k :: int where k: "0 \<le> (bearing - start + pi) - PI_2 * of_int k"
      "(bearing - start + pi) - PI_2 * of_int k < PI_2"
    using floor_mod_exists[OF PI_2_pos, of "bearing - start + pi"] by blast
  define w where "w = bearing - start - PI_2 * of_int k"
  have w: "- pi \<le> w" "w < pi" using k by (simp_all add: w_def PI_2_def)
  have "bearing - start = w + PI_2 * of_int k" by (simp add: w_def)
  then have "shortestAngle start bearing = w" by (rule shortestAngle_char[OF w])
  moreover have "start + w = bearing + 2 * pi * of_int (- k)" by (simp add: w_def PI_2_def)
  ultimately show ?thesis using w by blast
qed

text \<open>
  C5 as stated asks for \<open>-\<pi> < delta\<close>: from start angle 0 to the bearing \<open>\<pi>\<close> the
  function returns \<open>-\<pi>\<close> itself.
\<close>

theorem shortestAngle_at_half_turn: "\<not> (- pi < shortestAngle 0 pi)"
  using shortestAngle_char[of "- pi" pi 0 1] by (simp add: PI_2_def)

lemma shortestAngle_1_0: "shortestAngle 1 0 = - 1"
  using shortestAngle_char[of "- 1" 0 1 0] pi_ge_two by (simp add: PI_2_def)

subsection \<open>The group operation face\<close>

text \<open>
  C1: a target with rotation 1 at the origin is turned to face the point \<open>(1, 0)\<close>
  at speed 1.  The bearing is 0 and the shortest signed angular delta is \<open>-1\<close>, so the
  claimed duration is 1.  The session created by \<open>face\<close> has duration 2 and drives the
  rotation from 1 to \<open>-1\<close>: \<open>face\<close> takes the delta for the goal angle, and subtracts
  the current rotation from it before dividing by the speed.
\<close>

theorem face_duration_uses_angle_as_goal:
  "map_option (\<lambda>(easing, w). (o_duration (s_options (sess w easing)),
                 map (\<lambda>b. (b_entry b, b_start b, b_to b)) (s_eases (sess w easing))))
      (Ease_face 0 (Num 1, Num 0) 1 no_options turned) = Some (2, [(''rotation'', Num 1, Num (- 1))])
   \<and> \<bar>shortestAngle 1 (atan2 (0 - 0) (1 - 0))\<bar> / 1 = 1"
  by (simp add: Ease_face_def turned_def Ease_new_def defaults_def room_def sprite_def set_field_def
      shortestAngleJ_def Math_atan2_def jsub_def nsub_def num_def atan2_def shortestAngle_1_0
      Ease_add_def Let_def no_options_def Easing_new_def request_frame_def addParam_def)

subsection \<open>The tint strategy\<close>

lemmas scene_defs = room_def sprite_def plain_def linear_def overshoot_def defaults_def no_options_def

lemma flashing_eases:
  "s_eases flashing = [\<lparr>b_element = 0, b_entry = ''tint'', b_update = UTint [Num 16711680, Num 65280],
      b_start = Num 0, b_to = Num 2, b_delta = Num 2\<rparr>]"
  by (simp add: flashing_def Easing_new_def addParam_def Let_def)

text \<open>
  C6 as stated promises an index inside the sequence for every value of the curve.
  Half way through a phase the curve \<open>overshoot\<close> returns 3 for a sequence of two
  colors; the index is 3, only an index equal to the length is pulled back, and the
  target's tint becomes \<open>undefined\<close>.
\<close>

theorem tint_overshoot_reads_undefined:
  "tint_index flashing (hd (s_eases flashing)) [Num 16711680, Num 65280] = Some 3
   \<and> el_field (els (update_all 0 disco) 0) ''tint'' = Undefined"
  by (simp add: flashing_eases update_all_def disco_def run_update_def on_element_def updateTint_def
      tint_index_def curve_at_def Math_floor_def lookup_def set_field_def
      flashing_def Easing_new_def scene_defs addParam_def Let_def)

text \<open>
  C6, as the code has it: for a non-empty color sequence and a curve value \<open>v\<close> with
  \<open>0 \<le> v \<le> length\<close>, the per-frame update selects the color at index
  \<open>floor v\<close>, pulled back to the last index when \<open>floor v\<close> equals the length, and
  that index lies inside the sequence.
\<close>

theorem tint_index_within_sequence:
  assumes "colors \<noteq> []" and "curve_at s (b_start b) (b_delta b) = Some v"
    and "0 \<le> v" and "v \<le> real (length colors)"
  shows "tint_index s b colors = Some (real (min (nat \<lfloor>v\<rfloor>) (length colors - 1)))
     \<and> min (nat \<lfloor>v\<rfloor>) (length colors - 1) < length colors
     \<and> el_field (updateTint s b colors el) ''tint'' = colors ! min (nat \<lfloor>v\<rfloor>) (length colors - 1)"
proof -
  let ?n = "length colors"
  have n: "0 < ?n" using assms(1) by simp
  have fl: "0 \<le> \<lfloor>v\<rfloor>" using assms(3) by simp
  have fle: "\<lfloor>v\<rfloor> \<le> int ?n" using assms(4) by (simp add: floor_le_iff)
  show ?thesis
  proof (cases "\<lfloor>v\<rfloor> = int ?n")
    case True
    then have m: "min (nat \<lfloor>v\<rfloor>) (?n - 1) = ?n - 1" by simp
    have r: "real_of_int \<lfloor>v\<rfloor> = real ?n" using True by simp
    have i: "tint_index s b colors = Some (real ?n - 1)"
      by (simp add: tint_index_def assms(2) Math_floor_def r)
    have "Suc 0 \<le> ?n" using assms(1) by (cases colors) simp_all
    then have rn: "real ?n - 1 = real (?n - 1)" by (simp add: of_nat_diff)
    show ?thesis unfolding m using n i
      by (simp add: updateTint_def set_field_def lookup_def rn)
  next
    case False
    then have lt: "\<lfloor>v\<rfloor> < int ?n" using fle by simp
    then have m: "min (nat \<lfloor>v\<rfloor>) (?n - 1) = nat \<lfloor>v\<rfloor>" using fl by simp
    have ne: "real_of_int \<lfloor>v\<rfloor> \<noteq> real ?n" using False by (metis of_int_of_nat_eq of_int_eq_iff)
    have r: "real (nat \<lfloor>v\<rfloor>) = real_of_int \<lfloor>v\<rfloor>" using fl by simp
    have i: "tint_index s b colors = Some (real_of_int \<lfloor>v\<rfloor>)"
      using ne by (simp add: tint_index_def assms(2) Math_floor_def)
    have lt': "real_of_int \<lfloor>v\<rfloor> < real ?n" using lt by (metis of_int_less_iff of_int_of_nat_eq)
    have nl: "nat \<lfloor>v\<rfloor> < ?n" using fl lt by linarith
    show ?thesis unfolding m using nl lt' i assms(3)
      by (simp add: updateTint_def set_field_def lookup_def r)
  qed
qed

text \<open>
  The hypotheses of C6 hold at the end of a phase over two colors, where the curve
  returns 2 and the last color is selected.
\<close>

theorem tint_index_within_sequence_witness:
  "[Num 16711680, Num 65280] \<noteq> []
   \<and> curve_at (flashing\<lparr>s_time := 100\<rparr>) (Num 0) (Num 2) = Some 2
   \<and> tint_index (flashing\<lparr>s_time := 100\<rparr>) (hd (s_eases flashing)) [Num 16711680, Num 65280] = Some 1
   \<and> el_field (updateTint (flashing\<lparr>s_time := 100\<rparr>) (hd (s_eases flashing))
         [Num 16711680, Num 65280] sprite) ''tint'' = Num 65280"
proof -
  have c: "curve_at (flashing\<lparr>s_time := 100\<rparr>) (b_start (hd (s_eases flashing))) (b_delta (hd (s_eases flashing))) = Some 2"
    by (simp add: flashing_eases curve_at_def) (simp add: flashing_def Easing_new_def scene_defs)
  show ?thesis
    using tint_index_within_sequence[OF _ c, of "[Num 16711680, Num 65280]" sprite] c
    by (simp add: flashing_eases)
qed

subsection \<open>The shake strategy at a repeat boundary\<close>

text \<open>
  C2: a target at \<open>(10, 20)\<close> shakes with radius 10 in a session that repeats.  The
  update that reaches the phase boundary with no leftover emits \<open>repeat\<close> and
  leaves the target at the jittered position \<open>(14, 24)\<close>: \<open>repeat\<close> has no case for
  shake, and its default case stores the start point in a field named \<open>shake\<close>
  instead of resetting \<open>x\<close> and \<open>y\<close>.
\<close>

theorem shake_not_reset_on_repeat:
  "(let w = snd (Easing_update no_listeners 0 100 shaking) in
      b_start (hd (s_eases (sess w 0))) = Pt (Num 10) (Num 20)
      \<and> log w = [(Session 0, EvEach), (Session 0, EvRepeat)]
      \<and> s_time (sess w 0) = 0
      \<and> el_field (els w 0) ''x'' = Num 14
      \<and> el_field (els w 0) ''y'' = Num 24
      \<and> el_field (els w 0) ''shake'' = Pt (Num 10) (Num 20))"
  by (simp add: shaking_def Easing_update_def advance_def Easing_new_def addParam_def scene_defs
      set_field_def on_session_def on_element_def run_update_def updateShake_def random_def
      Math_floor_def nmul_def nsub_def nadd_def jadd_def num_def emit_def with_log_def no_listeners_def
      repeat_phase_def repeat_def Let_def first_pass_def carry_over_def repeat_all_def)

subsection \<open>Frame lemmas for the session update\<close>

text \<open>
  What the pieces of \<open>Easing.update\<close> leave alone when no listener interferes; these
  lemmas are used for all the properties of sessions below.
\<close>

lemma emit_no_listeners: "emit no_listeners source ev w = with_log (log w @ [(source, ev)]) w"
  by (simp add: emit_def no_listeners_def)

lemma with_log_simps:
  "sess (with_log x w) = sess w"
  "els (with_log x w) = els w"
  "log (with_log x w) = x"
  "grp (with_log x w) = grp w"
  by (simp_all add: with_log_def)

lemma on_session_simps:
  "sess (on_session sid f w) = (sess w)(sid := f (sess w sid))"
  "els (on_session sid f w) = els w"
  "log (on_session sid f w) = log w"
  "rnd (on_session sid f w) = rnd w"
  "rnd_pos (on_session sid f w) = rnd_pos w"
  by (simp_all add: on_session_def)

lemma on_element_simps:
  "sess (on_element r f w) = sess w"
  "els (on_element r f w) = (els w)(r := f (els w r))"
  "log (on_element r f w) = log w"
  by (simp_all add: on_element_def)

lemma destroyed_set_field: "el_destroyed (set_field n v el) = el_destroyed el"
  by (simp add: set_field_def)

lemma destroyed_set_point: "el_destroyed (set_point n f el) = el_destroyed el"
  by (simp add: set_point_def)

lemma run_update_frame:
  "sess (run_update sid b w) = sess w"
  "log (run_update sid b w) = log w"
  "el_destroyed (els (run_update sid b w) r) = el_destroyed (els w r)"
  by (simp_all add: run_update_def on_element_def Let_def updateCoord_def updateTint_def
      updateBlend_def updateShake_def updatePosition_def updatePoint_def updateOne_def
      destroyed_set_field destroyed_set_point split: updater.split)

lemma fold_run_update_frame:
  "sess (fold (run_update sid) bs w) = sess w"
  "log (fold (run_update sid) bs w) = log w"
  "el_destroyed (els (fold (run_update sid) bs w) r) = el_destroyed (els w r)"
  by (induction bs arbitrary: w) (simp_all add: run_update_frame)

lemma update_all_frame:
  "sess (update_all sid w) = sess w"
  "log (update_all sid w) = log w"
  "el_destroyed (els (update_all sid w) r) = el_destroyed (els w r)"
  by (simp_all add: update_all_def fold_run_update_frame)

lemma update_loop_live:
  "\<forall>b\<in>set bs. \<not> el_destroyed (els w (b_element b)) \<Longrightarrow>
   update_loop sid bs w = (bs, fold (run_update sid) bs w)"
  by (induction bs arbitrary: w) (simp_all add: run_update_frame)

lemma destroyed_repeat: "el_destroyed (repeat b el) = el_destroyed el"
  by (simp add: repeat_def destroyed_set_field)

lemma destroyed_complete: "el_destroyed (complete b el) = el_destroyed el"
  by (simp add: complete_def destroyed_set_field)

lemma fold_on_element_frame:
  assumes "\<And>b el. el_destroyed (f b el) = el_destroyed el"
  shows "sess (fold (\<lambda>b. on_element (b_element b) (f b)) bs w) = sess w"
    "log (fold (\<lambda>b. on_element (b_element b) (f b)) bs w) = log w"
    "el_destroyed (els (fold (\<lambda>b. on_element (b_element b) (f b)) bs w) r) = el_destroyed (els w r)"
  by (induction bs arbitrary: w) (simp_all add: on_element_simps assms)

lemma repeat_all_frame:
  "sess (repeat_all sid w) = sess w"
  "log (repeat_all sid w) = log w"
  "el_destroyed (els (repeat_all sid w) r) = el_destroyed (els w r)"
  by (simp_all add: repeat_all_def fold_on_element_frame destroyed_repeat)

lemma complete_all_frame:
  "sess (complete_all sid w) = sess w"
  "log (complete_all sid w) = log w"
  "el_destroyed (els (complete_all sid w) r) = el_destroyed (els w r)"
  by (simp_all add: complete_all_def fold_on_element_frame destroyed_complete)

lemma carry_over_frame:
  "sess (carry_over sid l w) = (sess w)(sid := (sess w sid)\<lparr>s_time := l\<rparr>)"
  "log (carry_over sid l w) = log w"
  "el_destroyed (els (carry_over sid l w) r) = el_destroyed (els w r)"
  by (simp_all add: carry_over_def Let_def update_all_frame on_session_simps)

lemma first_pass_live:
  assumes "\<forall>b\<in>set (s_eases (sess w sid)). \<not> el_destroyed (els w (b_element b))"
  shows "fst (first_pass sid e w) =
           (if s_time (sess w sid) + e \<ge> o_duration (s_options (sess w sid))
            then s_time (sess w sid) + e - o_duration (s_options (sess w sid)) else 0)"
    "sess (snd (first_pass sid e w)) =
       (sess w)(sid := (sess w sid)\<lparr>s_time :=
          (if s_time (sess w sid) + e \<ge> o_duration (s_options (sess w sid))
           then o_duration (s_options (sess w sid)) else s_time (sess w sid) + e)\<rparr>)"
    "log (snd (first_pass sid e w)) = log w"
    "el_destroyed (els (snd (first_pass sid e w)) r) = el_destroyed (els w r)"
proof -
  let ?w1 = "on_session sid (\<lambda>s. s\<lparr>s_time := (if s_time (sess w sid) + e \<ge> o_duration (s_options (sess w sid))
           then o_duration (s_options (sess w sid)) else s_time (sess w sid) + e)\<rparr>) w"
  have "\<forall>b\<in>set (s_eases (sess ?w1 sid)). \<not> el_destroyed (els ?w1 (b_element b))"
    using assms by (simp add: on_session_simps)
  then have l: "update_loop sid (s_eases (sess ?w1 sid)) ?w1 = (s_eases (sess ?w1 sid), fold (run_update sid) (s_eases (sess ?w1 sid)) ?w1)"
    by (rule update_loop_live)
  show "fst (first_pass sid e w) =
           (if s_time (sess w sid) + e \<ge> o_duration (s_options (sess w sid))
            then s_time (sess w sid) + e - o_duration (s_options (sess w sid)) else 0)"
    unfolding first_pass_def Let_def l by simp
  show "sess (snd (first_pass sid e w)) =
       (sess w)(sid := (sess w sid)\<lparr>s_time :=
          (if s_time (sess w sid) + e \<ge> o_duration (s_options (sess w sid))
           then o_duration (s_options (sess w sid)) else s_time (sess w sid) + e)\<rparr>)"
    unfolding first_pass_def Let_def l by (simp add: on_session_simps fold_run_update_frame)
  show "log (snd (first_pass sid e w)) = log w"
    unfolding first_pass_def Let_def l by (simp add: on_session_simps fold_run_update_frame)
  show "el_destroyed (els (snd (first_pass sid e w)) r) = el_destroyed (els w r)"
    unfolding first_pass_def Let_def l by (simp add: on_session_simps fold_run_update_frame)
qed

lemma update_loop_frame:
  "sess (snd (update_loop sid bs w)) = sess w"
  "log (snd (update_loop sid bs w)) = log w"
  "el_destroyed (els (snd (update_loop sid bs w)) r) = el_destroyed (els w r)"
  by (induction bs arbitrary: w) (simp_all add: run_update_frame split_beta Let_def)

lemma first_pass_clock:
  "fst (first_pass sid e w) =
     (if s_time (sess w sid) + e \<ge> o_duration (s_options (sess w sid))
      then s_time (sess w sid) + e - o_duration (s_options (sess w sid)) else 0)"
  "s_time (sess (snd (first_pass sid e w)) sid) =
     (if s_time (sess w sid) + e \<ge> o_duration (s_options (sess w sid))
      then o_duration (s_options (sess w sid)) else s_time (sess w sid) + e)"
  "s_options (sess (snd (first_pass sid e w)) sid) = s_options (sess w sid)"
  "log (snd (first_pass sid e w)) = log w"
  by (simp_all add: first_pass_def Let_def split_beta on_session_simps update_loop_frame)

lemma run_update_with_log: "run_update sid b (with_log x w) = with_log x (run_update sid b w)"
  by (simp add: run_update_def on_element_def with_log_def Let_def split: updater.split)

lemma fold_run_update_with_log:
  "fold (run_update sid) bs (with_log x w) = with_log x (fold (run_update sid) bs w)"
  by (induction bs arbitrary: w) (simp_all add: run_update_with_log)

lemma on_session_with_log: "on_session sid f (with_log x w) = with_log x (on_session sid f w)"
  by (simp add: on_session_def with_log_def)

lemma on_element_with_log: "on_element r f (with_log x w) = with_log x (on_element r f w)"
  by (simp add: on_element_def with_log_def)

lemma carry_over_with_log: "carry_over sid l (with_log x w) = with_log x (carry_over sid l w)"
  by (simp add: carry_over_def Let_def update_all_def on_session_with_log fold_run_update_with_log
      with_log_simps)

lemma reverse_all_with_log: "reverse_all sid (with_log x w) = with_log x (reverse_all sid w)"
  by (simp add: reverse_all_def on_session_with_log)

lemma fold_on_element_with_log:
  "fold (\<lambda>b. on_element (b_element b) (f b)) bs (with_log x w) =
   with_log x (fold (\<lambda>b. on_element (b_element b) (f b)) bs w)"
  by (induction bs arbitrary: w) (simp_all add: on_element_with_log)

lemma repeat_all_with_log: "repeat_all sid (with_log x w) = with_log x (repeat_all sid w)"
  by (simp add: repeat_all_def fold_on_element_with_log with_log_simps)

lemma complete_all_with_log: "complete_all sid (with_log x w) = with_log x (complete_all sid w)"
  by (simp add: complete_all_def fold_on_element_with_log with_log_simps)

lemma reverse_all_frame:
  "sess (reverse_all sid w) = (sess w)(sid := (sess w sid)\<lparr>s_eases := map reverse (s_eases (sess w sid))\<rparr>)"
  "log (reverse_all sid w) = log w"
  "els (reverse_all sid w) = els w"
  by (simp_all add: reverse_all_def on_session_simps)

lemma advance_clock:
  "(let t = s_time (sess w sid) + e; d = o_duration (s_options (sess w sid));
        rev = o_reverse (s_options (sess w sid)); rep = truthy_repeat (o_repeat (s_options (sess w sid)));
        mid = snd (first_pass sid e w);
        result = advance no_listeners sid e w; finished = fst result; w' = snd result;
        t' = s_time (sess w' sid)
    in (t < d \<longrightarrow> \<not> finished \<and> t' = t)
     \<and> (d \<le> t \<and> rev \<longrightarrow>
          \<not> finished \<and> t' = t - d \<and> els w' = els (carry_over sid (t - d) (reverse_all sid mid)))
     \<and> (d \<le> t \<and> \<not> rev \<and> rep \<longrightarrow>
          \<not> finished \<and> t' = t - d \<and> els w' = els (carry_over sid (t - d) (repeat_all sid mid)))
     \<and> (d \<le> t \<and> \<not> rev \<and> \<not> rep \<longrightarrow> finished \<and> t' = d)
     \<and> o_duration (s_options (sess w' sid)) = d)"
  by (simp add: advance_def Let_def split_beta emit_no_listeners first_pass_clock
      reverse_phase_def repeat_phase_def complete_phase_def
      carry_over_with_log reverse_all_with_log repeat_all_with_log with_log_simps
      carry_over_frame reverse_all_frame repeat_all_frame complete_all_frame on_session_simps)

subsection \<open>The session clock\<close>

text \<open>
  C9, as the code has it: for a session with at least one binding and no wait
  pending, with \<open>t\<close> the old clock plus the elapsed time and \<open>d\<close> the duration: below
  the boundary the clock becomes \<open>t\<close>; at a boundary with \<open>reverse\<close> or \<open>repeat\<close> set
  the clock of the next phase is the leftover \<open>t - d\<close>, and the targets are those
  obtained by resetting the phase and updating every binding again when the leftover
  is not 0; at the terminal boundary the clock stays at \<open>d\<close>.  The clock is never
  negative for non-negative inputs, and it is at most \<open>d\<close> as long as the leftover is:
  one call passes one boundary, so a leftover larger than the duration stays on the
  clock.
\<close>

theorem clock_carries_leftover:
  assumes "s_eases (sess w sid) \<noteq> []" and "o_wait (s_options (sess w sid)) = 0"
  shows
   "(let t = s_time (sess w sid) + elapsed; d = o_duration (s_options (sess w sid));
         rev = o_reverse (s_options (sess w sid));
         rep = truthy_repeat (o_repeat (s_options (sess w sid)));
         mid = snd (first_pass sid elapsed w);
         result = Easing_update no_listeners sid elapsed w;
         finished = fst result; w' = snd result;
         t' = s_time (sess w' sid)
     in (t < d \<longrightarrow> \<not> finished \<and> t' = t)
      \<and> (d \<le> t \<and> rev \<longrightarrow>
           \<not> finished \<and> t' = t - d \<and> els w' = els (carry_over sid (t - d) (reverse_all sid mid)))
      \<and> (d \<le> t \<and> \<not> rev \<and> rep \<longrightarrow>
           \<not> finished \<and> t' = t - d \<and> els w' = els (carry_over sid (t - d) (repeat_all sid mid)))
      \<and> (d \<le> t \<and> \<not> rev \<and> \<not> rep \<longrightarrow> finished \<and> t' = d)
      \<and> (0 \<le> s_time (sess w sid) \<and> 0 \<le> elapsed \<and> 0 \<le> d \<longrightarrow> 0 \<le> t')
      \<and> (t \<le> 2 * d \<longrightarrow> t' \<le> d))"
proof -
  have u: "Easing_update no_listeners sid elapsed w = advance no_listeners sid elapsed w"
    using assms by (simp add: Easing_update_def)
  show ?thesis
    unfolding u using advance_clock[of w sid elapsed]
    by (auto simp: Let_def)
qed

lemma looping_session:
  "sess looping 0 =
     \<lparr>s_elements = [0],
      s_eases = [\<lparr>b_element = 0, b_entry = ''x'', b_update = UOne ''x'', b_start = Num 0,
                  b_to = Num 100, b_delta = Num 100\<rparr>],
      s_options = \<lparr>o_ease = linear, o_duration = 5, o_reverse = False, o_repeat = RBool True,
                   o_wait = 0\<rparr>,
      s_time = 0\<rparr>"
  by (simp add: looping_def Easing_new_def addParam_def room_def sprite_def plain_def jsub_def
      nsub_def num_def Let_def)

text \<open>
  C9 on a repeating session of duration 5 updated by 16: the leftover 11 is the new
  clock.
\<close>

theorem clock_carries_leftover_witness:
  "s_eases (sess looping 0) \<noteq> [] \<and> o_wait (s_options (sess looping 0)) = 0
   \<and> o_duration (s_options (sess looping 0)) \<le> s_time (sess looping 0) + 16
   \<and> \<not> o_reverse (s_options (sess looping 0))
   \<and> truthy_repeat (o_repeat (s_options (sess looping 0)))
   \<and> \<not> fst (Easing_update no_listeners 0 16 looping)
   \<and> s_time (sess (snd (Easing_update no_listeners 0 16 looping)) 0) = 11"
  using clock_carries_leftover[of looping 0 16]
  by (simp add: looping_session Let_def)

text \<open>
  C9 as stated bounds the clock by the duration after every call; in the same scene
  the clock is 11 after the call, above the duration 5.
\<close>

theorem clock_exceeds_duration:
  "\<not> s_time (sess (snd (Easing_update no_listeners 0 16 looping)) 0)
       \<le> o_duration (s_options (sess (snd (Easing_update no_listeners 0 16 looping)) 0))"
  using advance_clock[of looping 0 16]
  by (simp add: Easing_update_def looping_session Let_def)

subsection \<open>Sessions that repeat for ever\<close>

lemma element_reverse: "b_element (reverse b) = b_element b"
  by (simp add: reverse_def Let_def)

lemma advance_forever:
  assumes "live sid w" and "o_repeat (s_options (sess w sid)) = RBool True"
  shows "\<not> fst (advance no_listeners sid e w) \<and> live sid (snd (advance no_listeners sid e w))
     \<and> o_repeat (s_options (sess (snd (advance no_listeners sid e w)) sid)) = RBool True"
proof -
  have l: "\<forall>b\<in>set (s_eases (sess w sid)). \<not> el_destroyed (els w (b_element b))"
    using assms(1) by (simp add: live_def)
  have ne: "s_eases (sess w sid) \<noteq> []" using assms(1) by (simp add: live_def)
  note fp = first_pass_live[OF l]
  show ?thesis
    using l ne assms(2)
    by (simp add: advance_def Let_def split_beta emit_no_listeners fp with_log_simps live_def
      repeat_phase_def reverse_phase_def carry_over_with_log repeat_all_with_log reverse_all_with_log
      on_session_with_log carry_over_frame repeat_all_frame reverse_all_frame on_session_simps
      element_reverse)
qed

lemma update_forever:
  assumes "live sid w" and "o_repeat (s_options (sess w sid)) = RBool True"
  shows "\<not> fst (Easing_update no_listeners sid e w)
     \<and> live sid (snd (Easing_update no_listeners sid e w))
     \<and> o_repeat (s_options (sess (snd (Easing_update no_listeners sid e w)) sid)) = RBool True"
proof (cases "o_wait (s_options (sess w sid)) = 0")
  case True
  then have u: "Easing_update no_listeners sid e w = advance no_listeners sid e w"
    using assms(1) by (simp add: Easing_update_def live_def)
  show ?thesis unfolding u by (rule advance_forever[OF assms])
next
  case False
  define wt where "wt = o_wait (s_options (sess w sid)) - e"
  show ?thesis
  proof (cases "wt > 0")
    case True
    have u: "Easing_update no_listeners sid e w =
        (False, emit no_listeners (Session sid) EvWait
           (on_session sid (\<lambda>s. s\<lparr>s_options := (s_options s)\<lparr>o_wait := wt\<rparr>\<rparr>) w))"
      using assms(1) False True by (simp add: Easing_update_def live_def wt_def Let_def)
    show ?thesis unfolding u using assms
      by (simp add: emit_no_listeners with_log_simps on_session_simps live_def)
  next
    case nw: False
    define w2 where "w2 = emit no_listeners (Session sid) EvWaitEnd
        (on_session sid (\<lambda>s. s\<lparr>s_options := (s_options s)\<lparr>o_wait := 0\<rparr>\<rparr>)
          (on_session sid (\<lambda>s. s\<lparr>s_options := (s_options s)\<lparr>o_wait := wt\<rparr>\<rparr>) w))"
    have u: "Easing_update no_listeners sid e w = advance no_listeners sid (- wt) w2"
      using assms(1) False nw by (simp add: Easing_update_def live_def wt_def w2_def Let_def)
    have l2: "live sid w2" and r2: "o_repeat (s_options (sess w2 sid)) = RBool True"
      using assms by (simp_all add: w2_def emit_no_listeners with_log_simps on_session_simps live_def)
    show ?thesis unfolding u by (rule advance_forever[OF l2 r2])
  qed
qed

lemma run_forever:
  assumes "live sid w" and "o_repeat (s_options (sess w sid)) = RBool True"
  shows "\<not> fst (run_session no_listeners sid es w)"
  using assms
proof (induction es arbitrary: w)
  case Nil
  then show ?case by simp
next
  case (Cons e es)
  note st = update_forever[OF Cons.prems, of e]
  show ?case using Cons.IH[of "snd (Easing_update no_listeners sid e w)"] st
    by (simp add: split_beta)
qed

lemma thrice_session:
  "sess thrice 0 =
     \<lparr>s_elements = [0],
      s_eases = [\<lparr>b_element = 0, b_entry = ''x'', b_update = UOne ''x'', b_start = Num 0,
                  b_to = Num 100, b_delta = Num 100\<rparr>],
      s_options = \<lparr>o_ease = linear, o_duration = 10, o_reverse = False, o_repeat = RNum 3,
                   o_wait = 0\<rparr>,
      s_time = 0\<rparr>"
  "els thrice = (\<lambda>r. sprite)" "log thrice = []"
  by (simp_all add: thrice_def Easing_new_def addParam_def room_def sprite_def plain_def jsub_def
      nsub_def num_def Let_def)

lemma thrice_live: "live 0 thrice"
  by (simp add: live_def thrice_session sprite_def)

lemma looping_els: "els looping = (\<lambda>r. sprite)"
  by (simp add: looping_def room_def)

lemma looping_live: "live 0 looping"
  by (simp add: live_def looping_session looping_els sprite_def)

subsection \<open>Frame requests of the group\<close>

lemma outside_simps:
  "outside (on_session sid f w) = outside w"
  "outside (on_element r g w) = outside w"
  "outside (with_log x w) = outside w"
  by (simp_all add: outside_def on_session_def on_element_def with_log_def)

lemma outside_run_update: "outside (run_update sid b w) = outside w"
  by (simp add: run_update_def outside_def on_element_def Let_def split: updater.split)

lemma outside_fold_run_update: "outside (fold (run_update sid) bs w) = outside w"
  by (induction bs arbitrary: w) (simp_all add: outside_run_update)

lemma outside_update_loop: "outside (snd (update_loop sid bs w)) = outside w"
  by (induction bs arbitrary: w) (simp_all add: outside_run_update split_beta Let_def)

lemma outside_fold_on_element:
  "outside (fold (\<lambda>b. on_element (b_element b) (f b)) bs w) = outside w"
  by (induction bs arbitrary: w) (simp_all add: outside_simps)

lemma outside_phases:
  "outside (carry_over sid l w) = outside w"
  "outside (reverse_all sid w) = outside w"
  "outside (repeat_all sid w) = outside w"
  "outside (complete_all sid w) = outside w"
  "outside (snd (first_pass sid e w)) = outside w"
  "outside (emit no_listeners source ev w) = outside w"
  by (simp_all add: carry_over_def reverse_all_def repeat_all_def complete_all_def first_pass_def
      update_all_def Let_def split_beta outside_simps outside_fold_run_update outside_update_loop
      outside_fold_on_element emit_def no_listeners_def)

lemma outside_advance: "outside (snd (advance no_listeners sid e w)) = outside w"
  by (simp add: advance_def Let_def split_beta reverse_phase_def repeat_phase_def
      complete_phase_def outside_phases outside_simps)

lemma outside_Easing_update: "outside (snd (Easing_update no_listeners sid e w)) = outside w"
  by (simp add: Easing_update_def Let_def outside_advance outside_phases outside_simps)

lemma tick_loop_outside:
  "raf_pending (tick_loop no_listeners e list w) = raf_pending w
   \<and> next_handle (tick_loop no_listeners e list w) = next_handle w
   \<and> ticker_listeners (tick_loop no_listeners e list w) = ticker_listeners w
   \<and> g_options (grp (tick_loop no_listeners e list w)) = g_options (grp w)
   \<and> g_empty (grp (tick_loop no_listeners e list w)) = g_empty (grp w)
   \<and> g_handleRAF (grp (tick_loop no_listeners e list w)) = g_handleRAF (grp w)
   \<and> g_lastTime (grp (tick_loop no_listeners e list w)) = g_lastTime (grp w)"
proof (induction list arbitrary: w)
  case Nil
  then show ?case by simp
next
  case (Cons s list)
  have o: "outside (snd (Easing_update no_listeners s e w)) = outside w"
    by (rule outside_Easing_update)
  show ?case
    using o by (simp add: split_beta Let_def Cons.IH outside_def)
qed

lemma advance_sessions_outside:
  "raf_pending (advance_sessions no_listeners e w) = raf_pending w"
  "next_handle (advance_sessions no_listeners e w) = next_handle w"
  "ticker_listeners (advance_sessions no_listeners e w) = ticker_listeners w"
  "g_options (grp (advance_sessions no_listeners e w)) = g_options (grp w)"
  using tick_loop_outside[of e "g_easings (grp w)" w]
  by (simp_all add: advance_sessions_def Let_def emit_def no_listeners_def with_log_def)

lemma advance_sessions_empty:
  assumes "g_empty (grp w) \<longleftrightarrow> g_easings (grp w) = []"
  shows "g_empty (grp (advance_sessions no_listeners e w)) \<longleftrightarrow>
         g_easings (grp (advance_sessions no_listeners e w)) = []"
  using tick_loop_outside[of e "g_easings (grp w)" w] assms
  by (simp add: advance_sessions_def Let_def emit_def no_listeners_def with_log_def)

lemma rearm_lazy:
  assumes "\<not> eo_ticker (g_options (grp w))" "ticker_listeners w = 0" "next_handle w \<noteq> 0"
    "g_empty (grp w) \<longleftrightarrow> g_easings (grp w) = []" "raf_pending w = []"
  shows "lazy_frames (rearm w)"
  using assms by (simp add: rearm_def lazy_frames_def request_frame_def handle_truthy_def Let_def)

lemma read_elapsed_frame:
  assumes "\<not> eo_ticker (g_options (grp w))"
  shows "raf_pending (snd (read_elapsed arg w)) = raf_pending w"
    "next_handle (snd (read_elapsed arg w)) = next_handle w"
    "ticker_listeners (snd (read_elapsed arg w)) = ticker_listeners w"
    "g_options (grp (snd (read_elapsed arg w))) = g_options (grp w)"
    "g_empty (grp (snd (read_elapsed arg w))) = g_empty (grp w)"
    "g_easings (grp (snd (read_elapsed arg w))) = g_easings (grp w)"
  using assms by (simp_all add: read_elapsed_def)

lemma Ease_update_lazy:
  assumes "\<not> eo_ticker (g_options (grp w))" "ticker_listeners w = 0" "next_handle w \<noteq> 0"
    "g_empty (grp w) \<longleftrightarrow> g_easings (grp w) = []" "raf_pending w = []"
  shows "lazy_frames (Ease_update no_listeners arg w)"
proof -
  define w1 where "w1 = snd (read_elapsed arg w)"
  define e where "e = min (fst (read_elapsed arg w)) (eo_maxFrame (g_options (grp w1)))"
  have u: "Ease_update no_listeners arg w = rearm (advance_sessions no_listeners e w1)"
    by (simp add: Ease_update_def split_beta Let_def w1_def e_def)
  note r = read_elapsed_frame[OF assms(1), of arg, folded w1_def]
  have "g_empty (grp w1) \<longleftrightarrow> g_easings (grp w1) = []" using assms(4) r by simp
  note em = advance_sessions_empty[OF this, of e]
  show ?thesis unfolding u
    by (rule rearm_lazy) (use assms r em in \<open>simp_all add: advance_sessions_outside\<close>)
qed

lemma outside_removeEase_loop: "outside (snd (removeEase_loop element param es w)) = outside w"
  by (induction es arbitrary: w) (simp_all add: split_beta Let_def outside_def)

lemma cancel_again:
  assumes "lazy_frames w"
  shows "lazy_frames (cancel_if_armed w)"
proof (cases "eo_useRAF (g_options (grp w)) \<and> handle_truthy (g_handleRAF (grp w))")
  case False
  then have "cancel_if_armed w = w" unfolding cancel_if_armed_def by (rule if_not_P)
  then show ?thesis using assms by simp
next
  case True
  then have u: "cancel_if_armed w =
      w\<lparr>raf_pending := removeAll (the (g_handleRAF (grp w))) (raf_pending w),
        grp := (grp w)\<lparr>g_handleRAF := None\<rparr>\<rparr>"
    by (simp add: cancel_if_armed_def)
  have "raf_pending w = [] \<or> raf_pending w = [the (g_handleRAF (grp w))]"
    using assms by (simp add: lazy_frames_def Let_def) blast
  then have "removeAll (the (g_handleRAF (grp w))) (raf_pending w) = []" by auto
  then show ?thesis unfolding u using assms by (simp add: lazy_frames_def Let_def)
qed

lemma lazy_frames_outside: "outside w' = outside w \<Longrightarrow> lazy_frames w' = lazy_frames w"
  by (simp add: lazy_frames_def outside_def)

lemma cancel_lazy:
  assumes "lazy_frames w"
  shows "lazy_frames (cancel_if_armed (w\<lparr>grp := (grp w)\<lparr>g_easings := [], g_empty := True\<rparr>\<rparr>))"
proof -
  let ?w = "w\<lparr>grp := (grp w)\<lparr>g_easings := [], g_empty := True\<rparr>\<rparr>"
  have p: "raf_pending w = [] \<or> raf_pending w = [the (g_handleRAF (grp w))] \<and>
      handle_truthy (g_handleRAF (grp w)) \<and> eo_useRAF (g_options (grp w))"
    using assms by (simp add: lazy_frames_def Let_def) blast
  show ?thesis
  proof (cases "eo_useRAF (g_options (grp ?w)) \<and> handle_truthy (g_handleRAF (grp ?w))")
    case False
    then have u: "cancel_if_armed ?w = ?w" unfolding cancel_if_armed_def by (rule if_not_P)
    have "raf_pending w = []" using p False by auto
    then show ?thesis unfolding u using assms by (simp add: lazy_frames_def Let_def)
  next
    case True
    then have u: "cancel_if_armed ?w =
        ?w\<lparr>raf_pending := removeAll (the (g_handleRAF (grp ?w))) (raf_pending ?w),
          grp := (grp ?w)\<lparr>g_handleRAF := None\<rparr>\<rparr>"
      unfolding cancel_if_armed_def by (rule if_P)
    have "removeAll (the (g_handleRAF (grp w))) (raf_pending w) = []" using p by auto
    then show ?thesis unfolding u using assms by (simp add: lazy_frames_def Let_def)
  qed
qed

lemma exec_cmd_lazy:
  assumes "lazy_frames w"
  shows "lazy_frames (exec_cmd c w)"
proof (cases c)
  case (CAdd elements params options)
  have p: "raf_pending w = [] \<or> raf_pending w \<noteq> [] \<and> g_easings (grp w) \<noteq> []"
    using assms by (auto simp: lazy_frames_def Let_def)
  have "lazy_frames (snd (Ease_add elements params options w))"
  proof (cases "g_empty (grp w) \<and> eo_useRAF (g_options (grp w))")
    case True
    then have "raf_pending w = []" using assms p by (auto simp: lazy_frames_def Let_def)
    then show ?thesis using True assms
      by (simp add: lazy_frames_def Ease_add_def Let_def request_frame_def handle_truthy_def)
  next
    case False
    then show ?thesis using assms
      by (simp add: lazy_frames_def Ease_add_def Let_def) blast
  qed
  then show ?thesis using CAdd by simp
next
  case CDestroy
  have l: "lazy_frames (removeAll_sessions w)" unfolding removeAll_sessions_def
    by (rule cancel_lazy[OF assms])
  then have "\<not> eo_ticker (g_options (grp (removeAll_sessions w)))"
    by (simp add: lazy_frames_def Let_def)
  then have "destroy w = cancel_if_armed (removeAll_sessions w)"
    by (simp add: destroy_def Let_def)
  then show ?thesis using CDestroy cancel_again[OF l] by simp
next
  case (CRemoveEase element param)
  define r where "r = removeEase_loop element param (g_easings (grp w)) w"
  have o: "outside (snd r) = outside w" unfolding r_def by (rule outside_removeEase_loop)
  have e: "g_easings (grp w) = [] \<Longrightarrow> fst r = []" by (simp add: r_def)
  define w2 where "w2 = (snd r)\<lparr>grp := (grp (snd r))\<lparr>g_easings := fst r\<rparr>\<rparr>"
  have u: "removeEase element param w =
      (if fst r = [] then cancel_if_armed (w2\<lparr>grp := (grp w2)\<lparr>g_easings := [], g_empty := True\<rparr>\<rparr>) else w2)"
    unfolding removeEase_def r_def[symmetric] w2_def by (simp add: split_beta Let_def)
  have l2: "fst r \<noteq> [] \<Longrightarrow> lazy_frames w2"
    using assms o e unfolding w2_def by (auto simp: lazy_frames_def Let_def outside_def)
  have "lazy_frames (snd r)" using lazy_frames_outside[OF o] assms by simp
  then have "lazy_frames (cancel_if_armed ((snd r)\<lparr>grp := (grp (snd r))\<lparr>g_easings := [], g_empty := True\<rparr>\<rparr>))"
    by (rule cancel_lazy)
  then have l3: "lazy_frames (cancel_if_armed (w2\<lparr>grp := (grp w2)\<lparr>g_easings := [], g_empty := True\<rparr>\<rparr>))"
    by (simp add: w2_def)
  have "lazy_frames (removeEase element param w)"
    unfolding u using l2 l3 by simp
  then show ?thesis using CRemoveEase by simp
next
  case CRemoveAll
  then show ?thesis using cancel_lazy[OF assms] by (simp add: removeAll_sessions_def)
next
  case (CRemove sid args)
  then show ?thesis using assms by (simp add: lazy_frames_def)
next
  case (CDestroyTarget element)
  then show ?thesis using assms by (simp add: lazy_frames_def)
qed

lemma step_lazy:
  assumes "lazy_frames w"
  shows "lazy_frames (step no_listeners x w)"
proof (cases x)
  case (Call c)
  then show ?thesis using exec_cmd_lazy[OF assms] by simp
next
  case (Frame now)
  show ?thesis
  proof (cases "raf_pending w")
    case Nil
    then show ?thesis using Frame assms by simp
  next
    case (Cons r rs)
    then have rs: "rs = []" using assms by (auto simp: lazy_frames_def Let_def)
    have "lazy_frames (Ease_update no_listeners 0 (w\<lparr>raf_pending := rs, clock := now\<rparr>))"
      using assms rs by (intro Ease_update_lazy) (auto simp: lazy_frames_def Let_def)
    then show ?thesis using Frame Cons by simp
  qed
next
  case (Tick ms)
  then show ?thesis using assms by (simp add: lazy_frames_def Let_def)
qed

lemma run_lazy: "lazy_frames w \<Longrightarrow> lazy_frames (run no_listeners ops w)"
  unfolding run_def by (induction ops arbitrary: w) (simp_all add: step_lazy)

lemma Ease_new_lazy:
  assumes "\<not> k_ticker options" "raf_pending w0 = []" "next_handle w0 \<noteq> 0" "ticker_listeners w0 = 0"
  shows "lazy_frames (Ease_new options w0)"
  using assms by (simp add: Ease_new_def lazy_frames_def Let_def)

text \<open>
  C3, as the code has it: a group constructed without a ticker, used through its
  interface and driven by its frame requests with no listener re-entering it, never
  subscribes to a ticker, has no frame request outstanding while it has no session,
  and with \<open>useRAF\<close> set requests a frame when a session is added to it while it is
  empty.
\<close>

theorem frames_requested_lazily:
  assumes "\<not> k_ticker options" and "raf_pending w0 = []" and "next_handle w0 \<noteq> 0"
    and "ticker_listeners w0 = 0"
  shows
   "(let w = run no_listeners ops (Ease_new options w0) in
      ticker_listeners w = 0
      \<and> (g_easings (grp w) = [] \<longrightarrow> raf_pending w = [])
      \<and> (g_easings (grp w) = [] \<and> eo_useRAF (g_options (grp w)) \<longrightarrow>
           raf_pending (snd (Ease_add elements params call w)) \<noteq> []))"
proof -
  have "lazy_frames (run no_listeners ops (Ease_new options w0))"
    by (rule run_lazy[OF Ease_new_lazy[OF assms]])
  then show ?thesis
    by (simp add: lazy_frames_def Let_def Ease_add_def request_frame_def) blast
qed

text \<open>
  C3 as stated covers the ticker subscription too: a group constructed with a ticker
  has registered its \<open>update\<close> on the ticker before any session was added.
\<close>

theorem ticker_subscribed_at_construction:
  "ticker_listeners (Ease_new (defaults\<lparr>k_ticker := True\<rparr>) room) = 1
   \<and> g_easings (grp (Ease_new (defaults\<lparr>k_ticker := True\<rparr>) room)) = []"
  by (simp add: Ease_new_def defaults_def room_def Let_def)

lemma stage_eval:
  "raf_pending (Ease_new defaults room) = []"
  "g_easings (grp (Ease_new defaults room)) = []"
  "eo_useRAF (g_options (grp (Ease_new defaults room)))"
  "raf_pending (snd (Ease_add [0] [(''x'', PNum 100)] no_options (Ease_new defaults room))) = [1]"
  by (simp_all add: Ease_new_def defaults_def room_def Let_def Ease_add_def request_frame_def
      no_options_def)

lemma stage_run:
  "g_easings (grp (run no_listeners
       [Call (CAdd [0] [(''x'', PNum 100)] no_options), Frame 16, Call CDestroy]
       (Ease_new defaults room))) = []"
  by (simp add: run_def Ease_new_def defaults_def room_def Let_def Ease_add_def request_frame_def
      no_options_def destroy_def removeAll_sessions_def cancel_if_armed_def)

text \<open>
  C3 on the default group: adding a session to the empty group requests a frame;
  after the frame has fired and the group was destroyed no request is outstanding.
\<close>

theorem frames_requested_lazily_witness:
  "\<not> k_ticker defaults \<and> raf_pending room = [] \<and> next_handle room \<noteq> 0
   \<and> ticker_listeners room = 0
   \<and> g_easings (grp (Ease_new defaults room)) = []
   \<and> eo_useRAF (g_options (grp (Ease_new defaults room)))
   \<and> raf_pending (Ease_new defaults room) = []
   \<and> raf_pending (snd (Ease_add [0] [(''x'', PNum 100)] no_options (Ease_new defaults room))) \<noteq> []
   \<and> g_easings (grp (run no_listeners
        [Call (CAdd [0] [(''x'', PNum 100)] no_options), Frame 16, Call CDestroy]
        (Ease_new defaults room))) = []
   \<and> raf_pending (run no_listeners
        [Call (CAdd [0] [(''x'', PNum 100)] no_options), Frame 16, Call CDestroy]
        (Ease_new defaults room)) = []"
proof -
  have h: "\<not> k_ticker defaults" "raf_pending room = []" "next_handle room \<noteq> 0"
    "ticker_listeners room = 0"
    by (simp_all add: defaults_def room_def)
  show ?thesis
    using frames_requested_lazily[OF h, of "[]" "[0]" "[(''x'', PNum 100)]" no_options]
      frames_requested_lazily[OF h,
        of "[Call (CAdd [0] [(''x'', PNum 100)] no_options), Frame 16, Call CDestroy]"
           "[0]" "[(''x'', PNum 100)]" no_options]
      h stage_run
    by (simp add: Let_def run_def stage_eval)
qed

subsection \<open>Removal during a tick\<close>

lemmas tick_defs = Ease_update_def read_elapsed_def advance_sessions_def rearm_def
  Easing_update_def advance_def first_pass_def Let_def split_beta
  on_session_def on_element_def run_update_def updateOne_def curve_at_def set_field_def
  emit_def with_log_def repeat_phase_def reverse_phase_def complete_phase_def
  carry_over_def update_all_def repeat_all_def reverse_all_def complete_all_def repeat_def
  complete_def reverse_def linear_def num_def jneg_def
  Ease_add_def Ease_new_def Easing_new_def addParam_def request_frame_def destroy_def
  removeAll_sessions_def cancel_if_armed_def handle_truthy_def removeEase_def Easing_remove_def
  splice1_def jsub_def nsub_def
  room_def sprite_def defaults_def no_options_def plain_def

text \<open>
  C4: the loop of \<open>Ease.update\<close> removes a finished session with
  \<open>splice(indexOf(easing), 1)\<close>.  When a listener has already taken that session out
  of the collection, \<open>indexOf\<close> answers \<open>-1\<close> and \<open>splice\<close> removes the last
  session instead.  First scene: session 0 completes, its listener destroys the group
  and adds session 1; session 1 is spliced out, unfinished and never advanced, and the
  group announces that it is complete.  Second scene: of three sessions the listener
  of session 0 removes session 1, whose update then reports finished; session 2 is
  spliced out although it is 16 ms into a duration of 1000.
\<close>

theorem finished_session_splices_newcomer:
  "(let w = step chain (Frame 16) solo in
      g_easings (grp solo) = [0]
      \<and> log w = [(Session 0, EvEach), (Session 0, EvComplete), (Group, EvEach), (Group, EvComplete)]
      \<and> s_eases (sess w 1) \<noteq> [] \<and> s_time (sess w 1) = 0
      \<and> g_easings (grp w) = [])
   \<and> (let w = step pruning (Frame 16) trio in
      g_easings (grp trio) = [0, 1, 2]
      \<and> log w = [(Session 0, EvEach), (Session 2, EvEach), (Group, EvEach)]
      \<and> s_eases (sess w 2) \<noteq> [] \<and> s_time (sess w 2) = 16
      \<and> o_duration (s_options (sess w 2)) = 1000
      \<and> g_easings (grp w) = [0])"
  by (simp add: solo_def chain_def trio_def pruning_def tick_defs)

subsection \<open>Reversal round trip\<close>

lemma read_slot_set_field:
  "read_slot k (set_field n v el) = (if k = Field n then v else read_slot k el)"
proof (cases k)
  case (Field m)
  then show ?thesis by (simp add: set_field_def)
next
  case (Sub name c)
  then show ?thesis by (cases c) (simp_all add: set_field_def get_point_def)
qed

lemma read_slot_set_point:
  "read_slot k (set_point name f el) =
     (if name = ''scale'' \<or> name = ''skew'' then
        (if k = Sub name X then fst (f (get_point el name))
         else if k = Sub name Y then snd (f (get_point el name))
         else read_slot k el)
      else read_slot k el)"
proof (cases k)
  case (Field m)
  then show ?thesis by (simp add: set_point_def)
next
  case (Sub n c)
  then show ?thesis by (cases c) (auto simp: set_point_def get_point_def)
qed

lemma run_update_other:
  assumes "(r, k) \<notin> set (driven b)"
  shows "read_slot k (els (run_update sid b w) r) = read_slot k (els w r)"
proof (cases "b_update b")
  case (UCoord name c)
  then show ?thesis using assms
    by (cases c) (auto simp: driven_def writes_def run_update_def on_element_def Let_def
      updateCoord_def read_slot_set_point)
next
  case (UTint colors)
  then show ?thesis using assms
    by (auto simp: driven_def writes_def run_update_def on_element_def Let_def
      updateTint_def read_slot_set_field)
next
  case (UBlend colors)
  then show ?thesis using assms
    by (auto simp: driven_def writes_def run_update_def on_element_def
      updateBlend_def read_slot_set_field Let_def)
next
  case UShake
  then show ?thesis using assms
    by (auto simp: driven_def writes_def run_update_def on_element_def Let_def
      updateShake_def read_slot_set_field)
next
  case UPosition
  then show ?thesis using assms
    by (auto simp: driven_def writes_def run_update_def on_element_def Let_def
      updatePosition_def read_slot_set_field)
next
  case (UPoint entry)
  then show ?thesis using assms
    by (auto simp: driven_def writes_def run_update_def on_element_def Let_def
      updatePoint_def read_slot_set_point)
next
  case (UOne entry)
  then show ?thesis using assms
    by (auto simp: driven_def writes_def run_update_def on_element_def Let_def
      updateOne_def read_slot_set_field)
qed

lemma run_update_own:
  assumes "steady b" and "k \<in> set (writes b)"
  shows "read_slot k (els (run_update sid b w) (b_element b)) = written (sess w sid) b k"
proof (cases "b_update b")
  case (UCoord name c)
  then show ?thesis using assms
    by (cases c) (auto simp: steady_def writes_def written_def run_update_def on_element_def
      Let_def updateCoord_def read_slot_set_point)
next
  case (UTint colors)
  then show ?thesis using assms
    by (auto simp: steady_def writes_def written_def run_update_def on_element_def
      Let_def updateTint_def read_slot_set_field)
next
  case (UBlend colors)
  then show ?thesis using assms
    by (auto simp: steady_def writes_def written_def run_update_def on_element_def
      Let_def updateBlend_def read_slot_set_field)
next
  case UShake
  then show ?thesis using assms by (simp add: steady_def)
next
  case UPosition
  then show ?thesis using assms
    by (auto simp: steady_def writes_def written_def run_update_def on_element_def
      Let_def updatePosition_def read_slot_set_field)
next
  case (UPoint entry)
  then show ?thesis using assms
    by (auto simp: steady_def writes_def written_def run_update_def on_element_def
      Let_def updatePoint_def read_slot_set_point)
next
  case (UOne entry)
  then show ?thesis using assms
    by (auto simp: steady_def writes_def written_def run_update_def on_element_def
      Let_def updateOne_def read_slot_set_field)
qed

lemma curve_driven_steady: "curve_driven b \<Longrightarrow> steady b"
  by (auto simp: curve_driven_def steady_def split: updater.splits)

lemma steady_reverse: "steady (reverse b) = steady b"
  by (simp add: steady_def reverse_def Let_def)

lemma fold_run_update_other:
  assumes "(r, k) \<notin> set (concat (map driven bs))"
  shows "read_slot k (els (fold (run_update sid) bs w) r) = read_slot k (els w r)"
  using assms
proof (induction bs arbitrary: w)
  case Nil
  then show ?case by simp
next
  case (Cons a bs)
  then have "(r, k) \<notin> set (driven a)" "(r, k) \<notin> set (concat (map driven bs))" by simp_all
  then show ?case using Cons.IH[of "run_update sid a w"] by (simp add: run_update_other)
qed

lemma fold_run_update_own:
  assumes "distinct (concat (map driven bs))" and "b \<in> set bs" and "steady b"
    and "k \<in> set (writes b)"
  shows "read_slot k (els (fold (run_update sid) bs w) (b_element b)) = written (sess w sid) b k"
  using assms(1,2)
proof (induction bs arbitrary: w)
  case Nil
  then show ?case by simp
next
  case (Cons a bs)
  have d: "distinct (concat (map driven bs))" using Cons.prems(1) by simp
  have m: "(b_element b, k) \<in> set (driven b)" using assms(4) by (simp add: driven_def)
  show ?case
  proof (cases "b \<in> set bs")
    case True
    show ?thesis using Cons.IH[OF d True, of "run_update sid a w"]
      by (simp add: run_update_frame)
  next
    case False
    then have ab: "a = b" using Cons.prems(2) by simp
    have "(b_element b, k) \<notin> set (concat (map driven bs))"
      using Cons.prems(1) m unfolding ab by auto
    then show ?thesis using fold_run_update_other[of "b_element b" k bs sid "run_update sid b w"]
      by (simp add: ab run_update_own[OF assms(3,4)])
  qed
qed

lemma complete_other:
  assumes "b_entry b \<noteq> ''shake''"
  shows "complete b el = el"
  using assms by (simp add: complete_def)

lemma fold_complete_id:
  assumes "\<forall>b\<in>set bs. b_entry b \<noteq> ''shake''"
  shows "els (fold (\<lambda>b. on_element (b_element b) (complete b)) bs w) = els w"
  using assms
  by (induction bs arbitrary: w) (simp_all add: on_element_simps complete_other)

lemma curve_driven_entry: "curve_driven b \<Longrightarrow> b_entry b \<noteq> ''shake''"
  by (auto simp: curve_driven_def split: updater.splits)

lemma curve_driven_position:
  "curve_driven b \<Longrightarrow> (b_entry b = ''position'') = (b_update b = UPosition)"
  by (auto simp: curve_driven_def split: updater.splits)

lemma reverse_keeps:
  "b_update (reverse b) = b_update b" "b_entry (reverse b) = b_entry b"
  "writes (reverse b) = writes b" "driven (reverse b) = driven b"
  by (simp_all add: reverse_def Let_def writes_def driven_def)

lemma triple_cases:
  assumes "triple s g d"
  obtains x y where "s = Num x" "g = Num y" "d = Num (y - x)"
  using assms by (cases "(s, g, d)" rule: triple.cases) simp_all

lemma repack:
  "push_bit 16 (drop_bit 16 c) OR push_bit 8 (take_bit 8 (drop_bit 8 c)) OR take_bit 8 c = (c::int)"
proof (rule bit_eqI)
  fix n :: nat
  consider "n < 8" | "8 \<le> n" "n < 16" | "16 \<le> n" by linarith
  then show "bit (push_bit 16 (drop_bit 16 c) OR push_bit 8 (take_bit 8 (drop_bit 8 c)) OR take_bit 8 c) n = bit c n"
  proof cases
    case 1
    then show ?thesis by (simp add: bit_simps)
  next
    case 2
    then show ?thesis by (auto simp: bit_simps)
  next
    case 3
    then show ?thesis by (auto simp: bit_simps)
  qed
qed

lemma and255: "(x::int) AND 255 = take_bit 8 x"
  using take_bit_eq_mask[of 8 x] by (simp add: mask_eq_exp_minus_1)

lemma byte_bounds: "0 \<le> take_bit 8 (x::int)" "take_bit 8 (x::int) < 256"
  using take_bit_int_less_exp[of 8 x] by simp_all

lemma signed_small: "0 \<le> x \<Longrightarrow> x < 2 ^ 24 \<Longrightarrow> signed_take_bit 31 (x::int) = x"
  by (rule signed_take_bit_int_eq_self) simp_all

lemma trunc_of_int: "trunc (of_int c) = c"
  by (simp add: trunc_def)

lemma to_int32_small: "0 \<le> x \<Longrightarrow> x < 2 ^ 24 \<Longrightarrow> to_int32 (Some (of_int x)) = x"
  by (simp add: to_int32_def trunc_of_int signed_small)

lemma red_bounds:
  fixes c :: int
  assumes "0 \<le> c" "c < 2 ^ 24"
  shows "0 \<le> drop_bit 16 c" "drop_bit 16 c < 256"
proof -
  show "0 \<le> drop_bit 16 c" using assms(1) by simp
  have "c div 2 ^ 16 < 2 ^ 8" using assms(2) by (simp add: div_less_iff_less_mult algebra_simps)
  then show "drop_bit 16 c < 256" by (simp add: drop_bit_eq_div)
qed

lemma pack_color:
  fixes c :: int
  assumes "0 \<le> c" "c < 2 ^ 24"
  shows "shl (to_int32 (Some (of_int (shr c 16)))) 16
         OR shl (to_int32 (Some (of_int (shr c 8 AND 255)))) 8
         OR to_int32 (Some (of_int (c AND 255))) = c"
proof -
  note rb = red_bounds[OF assms]
  have r: "to_int32 (Some (of_int (shr c 16))) = drop_bit 16 c"
    using rb by (simp add: shr_def to_int32_small)
  have g: "to_int32 (Some (of_int (shr c 8 AND 255))) = take_bit 8 (drop_bit 8 c)"
    using byte_bounds[of "drop_bit 8 c"] by (simp add: shr_def and255 to_int32_small)
  have b: "to_int32 (Some (of_int (c AND 255))) = take_bit 8 c"
    using byte_bounds[of c] by (simp add: and255 to_int32_small)
  have "push_bit 16 (drop_bit 16 c) < 2 ^ 24" using rb by (simp add: push_bit_eq_mult)
  moreover have "0 \<le> push_bit 16 (drop_bit 16 c)" using rb by simp
  ultimately have sr: "shl (drop_bit 16 c) 16 = push_bit 16 (drop_bit 16 c)"
    by (simp add: shl_def signed_small)
  have "push_bit 8 (take_bit 8 (drop_bit 8 c)) < 2 ^ 24"
    using byte_bounds[of "drop_bit 8 c"] by (simp add: push_bit_eq_mult)
  moreover have "0 \<le> push_bit 8 (take_bit 8 (drop_bit 8 c))" by simp
  ultimately have sg: "shl (take_bit 8 (drop_bit 8 c)) 8 = push_bit 8 (take_bit 8 (drop_bit 8 c))"
    by (simp add: shl_def signed_small)
  show ?thesis unfolding r g b sr sg by (rule repack)
qed

lemma blend_color_at_start:
  assumes "colors \<noteq> []" and "hd colors = Num (of_int c)" and "0 \<le> c" and "c < 2 ^ 24"
    and "curve_at s (b_start b) (b_delta b) = Some 0"
    and "\<not> o_reverse (s_options s)" and "\<not> truthy_repeat (o_repeat (s_options s))"
  shows "blend_color s b colors = Num (of_int c)"
proof -
  have n: "real (length colors) \<noteq> 0" using assms(1) by simp
  have l0: "lookup colors (Some 0) = Num (of_int c)"
    using assms(1,2) by (cases colors) (simp_all add: lookup_def)
  have c1: "to_int32 (to_number (lookup colors (Some 0))) = c"
    using assms(3,4) by (simp add: l0 to_int32_small)
  have mix: "\<And>x y. nadd (nmul (Some 1) (Some x)) (nmul (Some 0) (Some y)) = Some x"
    by (simp add: nadd_def nmul_def)
  show ?thesis
    unfolding blend_color_def Let_def assms(5)
    using n assms(6,7) pack_color[OF assms(3,4)]
    by (simp add: Math_floor_def nadd_def nsub_def nmul_def c1)
qed

lemma written_reverse:
  assumes "curve_driven b" and "k \<in> set (writes b)"
    and "s_time s = o_duration (s_options s)"
    and "\<forall>x d. o_ease (s_options s) (o_duration (s_options s)) (Num x) (Num d)
             (o_duration (s_options s)) = Some (x + d)"
    and "\<not> o_reverse (s_options s)" and "\<not> truthy_repeat (o_repeat (s_options s))"
  shows "written s (reverse b) k = start_value b k"
proof (cases "b_update b")
  case (UCoord name c)
  then have t: "triple (b_start b) (b_to b) (b_delta b)" and e: "b_entry b \<noteq> ''position''"
    using assms(1) by (simp_all add: curve_driven_def)
  from t obtain x y where v: "b_start b = Num x" "b_to b = Num y" "b_delta b = Num (y - x)"
    by (rule triple_cases)
  show ?thesis using UCoord e v assms(3,4)
    by (simp add: written_def start_value_def reverse_def Let_def curve_at_def jneg_def num_def)
next
  case (UTint colors)
  then have t: "triple (b_start b) (b_to b) (b_delta b)" and e: "b_entry b \<noteq> ''position''"
    and c: "colors \<noteq> []" and z: "b_start b = Num 0"
    using assms(1) by (auto simp: curve_driven_def)
  from t obtain x y where v: "b_start b = Num x" "b_to b = Num y" "b_delta b = Num (y - x)"
    by (rule triple_cases)
  have x: "x = 0" using v z by simp
  have n: "real (length colors) \<noteq> 0" using c by simp
  show ?thesis using UTint e v x n assms(3,4)
    by (simp add: written_def start_value_def reverse_def Let_def curve_at_def jneg_def num_def
        tint_index_def Math_floor_def)
next
  case (UBlend colors)
  then have t: "triple (b_start b) (b_to b) (b_delta b)" and e: "b_entry b \<noteq> ''position''"
    and c: "colors \<noteq> []" and z: "b_start b = Num 0"
    and h: "(case hd colors of Num r \<Rightarrow> r = of_int \<lfloor>r\<rfloor> \<and> 0 \<le> r \<and> r < 2 ^ 24 | _ \<Rightarrow> False)"
    using assms(1) by (auto simp: curve_driven_def)
  from t obtain x y where v: "b_start b = Num x" "b_to b = Num y" "b_delta b = Num (y - x)"
    by (rule triple_cases)
  have x: "x = 0" using v z by simp
  from h obtain r where r: "hd colors = Num r" "r = of_int \<lfloor>r\<rfloor>" "0 \<le> r" "r < 2 ^ 24"
    by (cases "hd colors") simp_all
  define cc where "cc = \<lfloor>r\<rfloor>"
  have hc: "hd colors = Num (of_int cc)" using r(1,2) by (simp add: cc_def)
  have c0: "0 \<le> cc" using r(3) by (simp add: cc_def)
  have "of_int cc < (2 ^ 24 :: real)" using r(2,4) by (simp add: cc_def)
  then have c1: "cc < 2 ^ 24" by (metis of_int_less_iff of_int_numeral of_int_power)
  have cv: "curve_at s (b_start (reverse b)) (b_delta (reverse b)) = Some 0"
    using UBlend e v x assms(3,4)
    by (simp add: reverse_def Let_def curve_at_def jneg_def num_def)
  have "blend_color s (reverse b) colors = Num (of_int cc)"
    by (rule blend_color_at_start[OF c hc c0 c1 cv assms(5,6)])
  moreover have "lookup colors (Some 0) = hd colors"
    using c by (cases colors) (simp_all add: lookup_def)
  ultimately show ?thesis using UBlend v x hc
    by (simp add: written_def start_value_def reverse_keeps)
next
  case UShake
  then show ?thesis using assms(1) by (simp add: curve_driven_def)
next
  case UPosition
  then have t: "triple (px (b_start b)) (px (b_to b)) (px (b_delta b))"
      "triple (py (b_start b)) (py (b_to b)) (py (b_delta b))" and e: "b_entry b = ''position''"
    using assms(1) by (simp_all add: curve_driven_def)
  from t(1) obtain x y where v: "px (b_start b) = Num x" "px (b_to b) = Num y" "px (b_delta b) = Num (y - x)"
    by (rule triple_cases)
  from t(2) obtain x' y' where v': "py (b_start b) = Num x'" "py (b_to b) = Num y'" "py (b_delta b) = Num (y' - x')"
    by (rule triple_cases)
  show ?thesis using UPosition e v v' assms(3,4)
    by (simp add: written_def start_value_def reverse_def Let_def curve_at_def jneg_def num_def)
next
  case (UPoint entry)
  then have t: "triple (b_start b) (b_to b) (b_delta b)" and e: "b_entry b \<noteq> ''position''"
    using assms(1) by (auto simp: curve_driven_def)
  from t obtain x y where v: "b_start b = Num x" "b_to b = Num y" "b_delta b = Num (y - x)"
    by (rule triple_cases)
  show ?thesis using UPoint e v assms(3,4)
    by (simp add: written_def start_value_def reverse_def Let_def curve_at_def jneg_def num_def)
next
  case (UOne entry)
  then have t: "triple (b_start b) (b_to b) (b_delta b)" and e: "b_entry b \<noteq> ''position''"
    using assms(1) by (simp_all add: curve_driven_def)
  from t obtain x y where v: "b_start b = Num x" "b_to b = Num y" "b_delta b = Num (y - x)"
    by (rule triple_cases)
  show ?thesis using UOne e v assms(3,4)
    by (simp add: written_def start_value_def reverse_def Let_def curve_at_def jneg_def num_def)
qed

lemma run_session_single: "run_session h sid [e] w = Easing_update h sid e w"
  by (cases "Easing_update h sid e w") auto

lemma run_session_append:
  assumes "\<not> fst (run_session h sid es w)"
  shows "run_session h sid (es @ es') w = run_session h sid es' (snd (run_session h sid es w))"
  using assms
  by (induction es arbitrary: w) (auto simp: split_beta)

lemma step_inside:
  assumes "live sid w" and "o_wait (s_options (sess w sid)) = 0"
    and "s_time (sess w sid) + e < o_duration (s_options (sess w sid))"
  shows "\<not> fst (Easing_update no_listeners sid e w)
     \<and> live sid (snd (Easing_update no_listeners sid e w))
     \<and> sess (snd (Easing_update no_listeners sid e w)) sid =
         (sess w sid)\<lparr>s_time := s_time (sess w sid) + e\<rparr>"
proof -
  have l: "\<forall>b\<in>set (s_eases (sess w sid)). \<not> el_destroyed (els w (b_element b))"
    and ne: "s_eases (sess w sid) \<noteq> []"
    using assms(1) by (simp_all add: live_def)
  have u: "Easing_update no_listeners sid e w = advance no_listeners sid e w"
    using assms(2) ne by (simp add: Easing_update_def)
  note fp = first_pass_live[OF l]
  show ?thesis unfolding u using l ne assms(3)
    by (simp add: advance_def Let_def split_beta emit_no_listeners fp with_log_simps live_def)
qed

lemma step_turn:
  assumes "live sid w" and "o_wait (s_options (sess w sid)) = 0"
    and "s_time (sess w sid) + e = o_duration (s_options (sess w sid))"
    and "o_reverse (s_options (sess w sid))"
    and "\<not> truthy_repeat (o_repeat (s_options (sess w sid)))"
  shows "\<not> fst (Easing_update no_listeners sid e w)
     \<and> live sid (snd (Easing_update no_listeners sid e w))
     \<and> sess (snd (Easing_update no_listeners sid e w)) sid =
         (sess w sid)\<lparr>s_time := 0, s_eases := map reverse (s_eases (sess w sid)),
                       s_options := (s_options (sess w sid))\<lparr>o_reverse := False\<rparr>\<rparr>"
proof -
  have l: "\<forall>b\<in>set (s_eases (sess w sid)). \<not> el_destroyed (els w (b_element b))"
    and ne: "s_eases (sess w sid) \<noteq> []"
    using assms(1) by (simp_all add: live_def)
  have u: "Easing_update no_listeners sid e w = advance no_listeners sid e w"
    using assms(2) ne by (simp add: Easing_update_def)
  note fp = first_pass_live[OF l]
  show ?thesis unfolding u using l ne assms(3,4,5)
    by (simp add: advance_def Let_def split_beta emit_no_listeners fp with_log_simps live_def
      reverse_phase_def carry_over_with_log reverse_all_with_log on_session_with_log
      carry_over_frame reverse_all_frame on_session_simps element_reverse)
qed

lemma first_pass_els:
  assumes "\<forall>b\<in>set (s_eases (sess w sid)). \<not> el_destroyed (els w (b_element b))"
  shows "els (snd (first_pass sid e w)) =
     els (fold (run_update sid) (s_eases (sess w sid))
       (on_session sid (\<lambda>s. s\<lparr>s_time :=
          (if s_time (sess w sid) + e \<ge> o_duration (s_options (sess w sid))
           then o_duration (s_options (sess w sid)) else s_time (sess w sid) + e)\<rparr>) w))"
proof -
  let ?w1 = "on_session sid (\<lambda>s. s\<lparr>s_time := (if s_time (sess w sid) + e \<ge> o_duration (s_options (sess w sid))
           then o_duration (s_options (sess w sid)) else s_time (sess w sid) + e)\<rparr>) w"
  have "\<forall>b\<in>set (s_eases (sess ?w1 sid)). \<not> el_destroyed (els ?w1 (b_element b))"
    using assms by (simp add: on_session_simps)
  then have l: "update_loop sid (s_eases (sess ?w1 sid)) ?w1 = (s_eases (sess ?w1 sid), fold (run_update sid) (s_eases (sess ?w1 sid)) ?w1)"
    by (rule update_loop_live)
  show ?thesis unfolding first_pass_def Let_def l by (simp add: on_session_simps)
qed

lemma step_finish:
  assumes "live sid w" and "o_wait (s_options (sess w sid)) = 0"
    and "s_time (sess w sid) + e = o_duration (s_options (sess w sid))"
    and "\<not> o_reverse (s_options (sess w sid))"
    and "\<not> truthy_repeat (o_repeat (s_options (sess w sid)))"
    and "\<forall>b\<in>set (s_eases (sess w sid)). b_entry b \<noteq> ''shake''"
  shows "fst (Easing_update no_listeners sid e w)
     \<and> els (snd (Easing_update no_listeners sid e w)) =
         els (fold (run_update sid) (s_eases (sess w sid))
               (on_session sid (\<lambda>s. s\<lparr>s_time := o_duration (s_options (sess w sid))\<rparr>) w))"
proof -
  have l: "\<forall>b\<in>set (s_eases (sess w sid)). \<not> el_destroyed (els w (b_element b))"
    and ne: "s_eases (sess w sid) \<noteq> []"
    using assms(1) by (simp_all add: live_def)
  have u: "Easing_update no_listeners sid e w = advance no_listeners sid e w"
    using assms(2) ne by (simp add: Easing_update_def)
  note fp = first_pass_live[OF l]
  note fe = first_pass_els[OF l, of e]
  have c: "els (complete_all sid (snd (first_pass sid e w))) = els (snd (first_pass sid e w))"
    unfolding complete_all_def
    by (rule fold_complete_id) (use assms(6) in \<open>simp add: fp\<close>)
  show ?thesis unfolding u using l ne assms(3,4,5) c fe
    by (simp add: advance_def Let_def split_beta emit_no_listeners fp with_log_simps
      complete_phase_def complete_all_with_log)
qed

lemma sum_list_pos_real:
  assumes "es \<noteq> []" and "\<forall>e\<in>set es. 0 < (e::real)"
  shows "0 < sum_list es"
  using assms by (induction es) (auto intro: add_pos_nonneg sum_list_nonneg less_imp_le)

lemma run_to_last:
  assumes "live sid w" and "o_wait (s_options (sess w sid)) = 0" and "es \<noteq> []"
    and "\<forall>e\<in>set es. 0 < e"
    and "s_time (sess w sid) + sum_list es = o_duration (s_options (sess w sid))"
  shows "\<exists>w0. live sid w0
     \<and> sess w0 sid = (sess w sid)\<lparr>s_time := o_duration (s_options (sess w sid)) - last es\<rparr>
     \<and> run_session no_listeners sid es w = Easing_update no_listeners sid (last es) w0"
  using assms
proof (induction es arbitrary: w)
  case Nil
  then show ?case by simp
next
  case (Cons e es)
  show ?case
  proof (cases "es = []")
    case True
    have "sess w sid = (sess w sid)\<lparr>s_time := o_duration (s_options (sess w sid)) - e\<rparr>"
      using Cons.prems(5) True by simp
    then show ?thesis using True Cons.prems(1) run_session_single[of no_listeners sid e w]
      by (intro exI[of _ w]) simp
  next
    case False
    have p: "0 < sum_list es" using False Cons.prems(4) by (intro sum_list_pos_real) simp_all
    then have lt: "s_time (sess w sid) + e < o_duration (s_options (sess w sid))"
      using Cons.prems(5) by simp
    define w1 where "w1 = snd (Easing_update no_listeners sid e w)"
    note st = step_inside[OF Cons.prems(1,2) lt, folded w1_def]
    have s1: "sess w1 sid = (sess w sid)\<lparr>s_time := s_time (sess w sid) + e\<rparr>" using st by simp
    have a: "live sid w1" "o_wait (s_options (sess w1 sid)) = 0" "\<forall>e\<in>set es. 0 < e"
      "s_time (sess w1 sid) + sum_list es = o_duration (s_options (sess w1 sid))"
      using st Cons.prems(2,4,5) by (simp_all add: s1)
    from Cons.IH[OF a(1,2) False a(3,4)] obtain w0 where w0: "live sid w0"
      "sess w0 sid = (sess w1 sid)\<lparr>s_time := o_duration (s_options (sess w1 sid)) - last es\<rparr>"
      "run_session no_listeners sid es w1 = Easing_update no_listeners sid (last es) w0"
      by blast
    have r: "run_session no_listeners sid (e # es) w = run_session no_listeners sid es w1"
      using st by (simp add: split_beta w1_def)
    show ?thesis
      using w0 False unfolding r by (intro exI[of _ w0]) (simp add: s1)
  qed
qed

text \<open>
  C7, as the code has it: a live session with \<open>reverse\<close> set and \<open>repeat\<close> unset, no
  wait and clock 0, whose bindings are curve-driven and write pairwise different
  slots, and whose curve returns \<open>start + delta\<close> at the end of a phase, is driven
  through one forward and one reverse phase by positive increments that add up to the
  duration in each phase.  The last update reports finished, and every slot a binding
  writes holds its start value again: the binding's start for the scalar, axis,
  uniform, position and facing strategies, the first color of the sequence for tint
  and blend.
\<close>

theorem reverse_round_trip:
  assumes "live sid w"
    and "\<forall>b\<in>set (s_eases (sess w sid)). curve_driven b"
    and "distinct (concat (map driven (s_eases (sess w sid))))"
    and "o_reverse (s_options (sess w sid))"
    and "\<not> truthy_repeat (o_repeat (s_options (sess w sid)))"
    and "o_wait (s_options (sess w sid)) = 0"
    and "s_time (sess w sid) = 0"
    and "\<forall>x d. o_ease (s_options (sess w sid)) (o_duration (s_options (sess w sid)))
            (Num x) (Num d) (o_duration (s_options (sess w sid))) = Some (x + d)"
    and "forward \<noteq> []" and "\<forall>e\<in>set forward. 0 < e"
    and "sum_list forward = o_duration (s_options (sess w sid))"
    and "backward \<noteq> []" and "\<forall>e\<in>set backward. 0 < e"
    and "sum_list backward = o_duration (s_options (sess w sid))"
  shows "fst (run_session no_listeners sid (forward @ backward) w)
     \<and> (\<forall>b\<in>set (s_eases (sess w sid)). \<forall>k\<in>set (writes b).
          read_slot k (els (snd (run_session no_listeners sid (forward @ backward) w)) (b_element b))
            = start_value b k)"
proof -
  let ?B = "s_eases (sess w sid)"
  let ?D = "o_duration (s_options (sess w sid))"
  have t0: "s_time (sess w sid) + sum_list forward = ?D" using assms(7,11) by simp
  from run_to_last[OF assms(1,6,9,10) t0] obtain w0 where w0: "live sid w0"
    "sess w0 sid = (sess w sid)\<lparr>s_time := ?D - last forward\<rparr>"
    "run_session no_listeners sid forward w = Easing_update no_listeners sid (last forward) w0"
    by blast
  define w1 where "w1 = snd (Easing_update no_listeners sid (last forward) w0)"
  have turn: "\<not> fst (Easing_update no_listeners sid (last forward) w0) \<and> live sid w1
     \<and> sess w1 sid = (sess w0 sid)\<lparr>s_time := 0, s_eases := map reverse (s_eases (sess w0 sid)),
                       s_options := (s_options (sess w0 sid))\<lparr>o_reverse := False\<rparr>\<rparr>"
    unfolding w1_def
    by (rule step_turn[OF w0(1)]) (use assms(4,5,6) in \<open>simp_all add: w0(2)\<close>)
  have s1: "sess w1 sid = (sess w sid)\<lparr>s_time := 0, s_eases := map reverse ?B,
      s_options := (s_options (sess w sid))\<lparr>o_reverse := False\<rparr>\<rparr>"
    using turn by (simp add: w0(2))
  have r1: "run_session no_listeners sid (forward @ backward) w = run_session no_listeners sid backward w1"
    using run_session_append[of no_listeners sid forward w backward] turn w0(3) by (simp add: w1_def)
  have t1: "s_time (sess w1 sid) + sum_list backward = o_duration (s_options (sess w1 sid))"
    using assms(14) by (simp add: s1)
  have wt1: "o_wait (s_options (sess w1 sid)) = 0" using assms(6) by (simp add: s1)
  have l1: "live sid w1" using turn by simp
  from run_to_last[OF l1 wt1 assms(12,13) t1] obtain w2 where w2: "live sid w2"
    "sess w2 sid = (sess w1 sid)\<lparr>s_time := o_duration (s_options (sess w1 sid)) - last backward\<rparr>"
    "run_session no_listeners sid backward w1 = Easing_update no_listeners sid (last backward) w2"
    by blast
  have s2: "sess w2 sid = (sess w sid)\<lparr>s_time := ?D - last backward, s_eases := map reverse ?B,
      s_options := (s_options (sess w sid))\<lparr>o_reverse := False\<rparr>\<rparr>"
    using w2(2) by (simp add: s1)
  have noshake: "\<forall>b\<in>set (s_eases (sess w2 sid)). b_entry b \<noteq> ''shake''"
    using assms(2) by (auto simp: s2 reverse_keeps dest: curve_driven_entry)
  define wX where "wX = on_session sid (\<lambda>s. s\<lparr>s_time := o_duration (s_options (sess w2 sid))\<rparr>) w2"
  have fin: "fst (Easing_update no_listeners sid (last backward) w2)
     \<and> els (snd (Easing_update no_listeners sid (last backward) w2)) =
         els (fold (run_update sid) (s_eases (sess w2 sid)) wX)"
    unfolding wX_def
    by (rule step_finish[OF w2(1) _ _ _ _ noshake]) (use assms(5,6) in \<open>simp_all add: s2\<close>)
  have sX: "s_time (sess wX sid) = o_duration (s_options (sess wX sid))"
    "o_ease (s_options (sess wX sid)) = o_ease (s_options (sess w sid))"
    "o_duration (s_options (sess wX sid)) = ?D"
    "\<not> o_reverse (s_options (sess wX sid))"
    "\<not> truthy_repeat (o_repeat (s_options (sess wX sid)))"
    using assms(5) by (simp_all add: wX_def on_session_simps s2)
  have dist: "distinct (concat (map driven (s_eases (sess w2 sid))))"
    using assms(3) by (simp add: s2 comp_def reverse_keeps)
  have slots: "read_slot k (els (fold (run_update sid) (s_eases (sess w2 sid)) wX) (b_element b))
      = start_value b k" if b: "b \<in> set ?B" and k: "k \<in> set (writes b)" for b k
  proof -
    have m: "reverse b \<in> set (s_eases (sess w2 sid))" using b by (simp add: s2)
    have cd: "curve_driven b" using assms(2) b by simp
    have st: "steady (reverse b)" using curve_driven_steady[OF cd] by (simp add: steady_reverse)
    have k': "k \<in> set (writes (reverse b))" using k by (simp add: reverse_keeps)
    have "read_slot k (els (fold (run_update sid) (s_eases (sess w2 sid)) wX) (b_element (reverse b)))
        = written (sess wX sid) (reverse b) k"
      by (rule fold_run_update_own[OF dist m st k'])
    moreover have "written (sess wX sid) (reverse b) k = start_value b k"
      by (rule written_reverse[OF cd k sX(1) _ sX(4,5)]) (use assms(8) in \<open>simp add: sX\<close>)
    ultimately show ?thesis by (simp add: element_reverse)
  qed
  show ?thesis unfolding r1 w2(3) using fin slots by simp
qed

lemma carousel_session:
  "sess carousel 0 =
     \<lparr>s_elements = [0],
      s_eases =
        [\<lparr>b_element = 0, b_entry = ''rotation'', b_update = UOne ''rotation'', b_start = Num 0,
          b_to = Num 2, b_delta = Num 2\<rparr>,
         \<lparr>b_element = 0, b_entry = ''position'', b_update = UPosition,
          b_start = Pt (Num 0) (Num 0), b_to = Pt (Num 30) (Num 40),
          b_delta = Pt (Num 30) (Num 40)\<rparr>,
         \<lparr>b_element = 0, b_entry = ''scaleX'', b_update = UCoord ''scale'' X, b_start = Num 1,
          b_to = Num 2, b_delta = Num 1\<rparr>,
         \<lparr>b_element = 0, b_entry = ''blend'', b_update = UBlend [Num 16711680, Num 65280],
          b_start = Num 0, b_to = Num 2, b_delta = Num 2\<rparr>],
      s_options = \<lparr>o_ease = linear, o_duration = 100, o_reverse = True, o_repeat = RBool False,
                   o_wait = 0\<rparr>,
      s_time = 0\<rparr>"
  "els carousel = (\<lambda>r. sprite)"
  by (simp_all add: carousel_def Easing_new_def addParam_def room_def sprite_def plain_def jsub_def
      nsub_def num_def Let_def get_point_def)

text \<open>
  C7 on a session over rotation, position, the x axis of scale and a blend of two
  colors, with duration 100, driven by 40 and 60 forward and by 100 back.
\<close>

theorem reverse_round_trip_witness:
  "fst (run_session no_listeners 0 ([40, 60] @ [100]) carousel)
   \<and> el_field (els (snd (run_session no_listeners 0 ([40, 60] @ [100]) carousel)) 0) ''rotation'' = Num 0
   \<and> el_field (els (snd (run_session no_listeners 0 ([40, 60] @ [100]) carousel)) 0) ''x'' = Num 0
   \<and> el_field (els (snd (run_session no_listeners 0 ([40, 60] @ [100]) carousel)) 0) ''y'' = Num 0
   \<and> fst (el_scale (els (snd (run_session no_listeners 0 ([40, 60] @ [100]) carousel)) 0)) = Num 1
   \<and> el_field (els (snd (run_session no_listeners 0 ([40, 60] @ [100]) carousel)) 0) ''tint'' = Num 16711680"
proof -
  have l: "live 0 carousel" by (simp add: live_def carousel_session sprite_def)
  have cd: "\<forall>b\<in>set (s_eases (sess carousel 0)). curve_driven b"
    by (simp add: carousel_session curve_driven_def)
  have di: "distinct (concat (map driven (s_eases (sess carousel 0))))"
    by (simp add: carousel_session driven_def writes_def)
  have cv: "\<forall>x d. o_ease (s_options (sess carousel 0)) (o_duration (s_options (sess carousel 0)))
            (Num x) (Num d) (o_duration (s_options (sess carousel 0))) = Some (x + d)"
    by (simp add: carousel_session linear_def)
  show ?thesis
    using reverse_round_trip[OF l cd di _ _ _ _ cv, of "[40, 60]" "[100]"]
    by (simp add: carousel_session writes_def start_value_def lookup_def get_point_def)
qed

text \<open>
  C7 as stated returns every bound property to its original start value.  A tint bound
  to a sequence of two colors has start 0 and the target has tint \<open>0xffffff\<close>; after
  the forward and the reverse phase the tint is the first color of the sequence,
  \<open>0xff0000\<close>, which is neither.
\<close>

theorem tint_sequence_round_trip:
  "el_field (els blinking 0) ''tint'' = Num 16777215
   \<and> b_start (hd (s_eases (sess blinking 0))) = Num 0
   \<and> fst (run_session no_listeners 0 [100, 100] blinking)
   \<and> el_field (els (snd (run_session no_listeners 0 [100, 100] blinking)) 0) ''tint'' = Num 16711680"
  by (simp add: blinking_def Easing_new_def addParam_def room_def sprite_def plain_def
      Easing_update_def advance_def first_pass_def Let_def split_beta
      on_session_def on_element_def run_update_def updateTint_def tint_index_def lookup_def
      Math_floor_def curve_at_def set_field_def
      emit_def with_log_def no_listeners_def reverse_phase_def complete_phase_def
      carry_over_def update_all_def reverse_all_def complete_all_def
      complete_def reverse_def linear_def num_def jneg_def)

text \<open>Bindings registered from numbers are curve-driven.\<close>

lemma registered_scalar:
  assumes "entry \<noteq> ''tint''" "entry \<noteq> ''blend''" "entry \<noteq> ''shake''"
    "entry \<noteq> ''position''" "entry \<noteq> ''face''"
    and "b_start (addParam el r entry (PNum g)) = Num s"
  shows "curve_driven (addParam el r entry (PNum g))"
proof -
  consider "entry = ''scaleX''" | "entry = ''skewX''" | "entry = ''scaleY''" | "entry = ''skewY''"
    | "entry = ''scale''" | "entry = ''skew''"
    | "entry \<noteq> ''scaleX''" "entry \<noteq> ''skewX''" "entry \<noteq> ''scaleY''" "entry \<noteq> ''skewY''"
      "entry \<noteq> ''scale''" "entry \<noteq> ''skew''"
    by blast
  then show ?thesis
  proof cases
    case 1
    then show ?thesis using assms(6)
      by (simp add: addParam_def Let_def curve_driven_def jsub_def nsub_def num_def)
  next
    case 2
    then show ?thesis using assms(6)
      by (simp add: addParam_def Let_def curve_driven_def jsub_def nsub_def num_def)
  next
    case 3
    then show ?thesis using assms(6)
      by (simp add: addParam_def Let_def curve_driven_def jsub_def nsub_def num_def)
  next
    case 4
    then show ?thesis using assms(6)
      by (simp add: addParam_def Let_def curve_driven_def jsub_def nsub_def num_def)
  next
    case 5
    then show ?thesis using assms(6)
      by (simp add: addParam_def Let_def curve_driven_def jsub_def nsub_def num_def)
  next
    case 6
    then show ?thesis using assms(6)
      by (simp add: addParam_def Let_def curve_driven_def jsub_def nsub_def num_def)
  next
    case 7
    then show ?thesis using assms
      by (simp add: addParam_def Let_def curve_driven_def jsub_def nsub_def num_def)
  qed
qed

lemma registered_position:
  assumes "el_field el ''x'' = Num x" and "el_field el ''y'' = Num y"
  shows "curve_driven (addParam el r ''position'' (PPt (Num a) (Num b)))"
  using assms by (simp add: addParam_def Let_def curve_driven_def jsub_def nsub_def num_def)

lemma registered_face:
  assumes "el_field el ''x'' = Num x" and "el_field el ''y'' = Num y"
    and "el_field el ''rotation'' = Num rot"
  shows "curve_driven (addParam el r ''face'' (PPt (Num a) (Num b)))"
  using assms
  by (simp add: addParam_def Let_def curve_driven_def jsub_def nsub_def num_def
      shortestAngleJ_def Math_atan2_def)

lemma registered_tint:
  assumes "colors \<noteq> []"
  shows "curve_driven (addParam el r ''tint'' (PArr colors))"
  using assms by (simp add: addParam_def Let_def curve_driven_def)

subsection \<open>Repeat cycles\<close>

lemma timeline_count:
  "timeline d (wt, t, k) es =
     (case timeline d (wt, t, 0) es of (wt', t', j) \<Rightarrow> (wt', t', k + j))"
proof (induction es arbitrary: wt t k)
  case Nil
  then show ?case by simp
next
  case (Cons e es)
  show ?case
    using Cons.IH[of "wt - e" t k] Cons.IH[of 0 _ k] Cons.IH[of 0 _ "Suc k"] Cons.IH[of 0 _ "Suc 0"]
    by (simp add: Let_def split: prod.splits)
qed

lemma timeline_append:
  "timeline d s (xs @ ys) = timeline d (timeline d s xs) ys"
proof (induction xs arbitrary: s)
  case Nil
  then show ?case by (cases s) simp
next
  case (Cons e xs)
  obtain wt t k where s: "s = (wt, t, k)" by (cases s) auto
  show ?case unfolding s by (simp add: Cons.IH Let_def)
qed

lemma timeline_wait:
  assumes "wt \<noteq> 0 \<and> wt - e > 0"
  shows "timeline d (wt, t, k) (e # es) = timeline d (wt - e, t, k) es"
  using assms by simp

lemma timeline_inside:
  assumes "\<not> (wt \<noteq> 0 \<and> wt - e > 0)" and "t1 = t + (if wt \<noteq> 0 then e - wt else e)"
    and "t1 < d"
  shows "timeline d (wt, t, k) (e # es) = timeline d (0, t1, k) es"
  using assms by (auto simp: Let_def)

lemma timeline_cross:
  assumes "\<not> (wt \<noteq> 0 \<and> wt - e > 0)" and "t1 = t + (if wt \<noteq> 0 then e - wt else e)"
    and "\<not> t1 < d"
  shows "timeline d (wt, t, k) (e # es) = timeline d (0, t1 - d, Suc k) es"
  using assms by (auto simp: Let_def)

lemma timeline_last:
  assumes "timeline d (wt0, t0, k0) [e] = (wt', t', Suc k0)"
  shows "\<not> (wt0 \<noteq> 0 \<and> wt0 - e > 0)"
    and "d \<le> t0 + (if wt0 \<noteq> 0 then e - wt0 else e)"
    and "t' = t0 + (if wt0 \<noteq> 0 then e - wt0 else e) - d"
  using assms by (auto simp: Let_def split: if_splits)

lemma restartable_steady: "restartable b \<Longrightarrow> steady b"
  by (auto simp: restartable_def steady_def split: updater.splits)

lemma restartable_entry: "restartable b \<Longrightarrow> b_entry b \<noteq> ''shake''"
  by (auto simp: restartable_def split: updater.splits coord.splits)

lemma repeat_own:
  assumes "restartable b" and "sl \<in> set (writes b)"
  shows "read_slot sl (repeat b el) = start_value b sl"
proof (cases "b_update b")
  case (UCoord name c)
  then show ?thesis using assms
    by (cases c) (auto simp: restartable_def writes_def start_value_def repeat_def get_point_def)
next
  case (UPoint entry)
  then show ?thesis using assms
    by (auto simp: restartable_def writes_def start_value_def repeat_def get_point_def)
next
  case UPosition
  then show ?thesis using assms
    by (auto simp: restartable_def writes_def start_value_def repeat_def read_slot_set_field)
next
  case (UOne entry)
  then show ?thesis using assms
    by (auto simp: restartable_def writes_def start_value_def repeat_def read_slot_set_field)
qed (use assms in \<open>simp_all add: restartable_def\<close>)

lemma repeat_other:
  assumes "restartable b" and "sl \<notin> set (writes b)"
  shows "read_slot sl (repeat b el) = read_slot sl el"
proof (cases sl)
  case (Field m)
  show ?thesis
  proof (cases "b_update b")
    case (UCoord name c)
    then show ?thesis using assms Field
      by (cases c) (auto simp: restartable_def writes_def repeat_def)
  next
    case (UPoint entry)
    then show ?thesis using assms Field
      by (auto simp: restartable_def writes_def repeat_def)
  next
    case UPosition
    then show ?thesis using assms Field
      by (auto simp: restartable_def writes_def repeat_def read_slot_set_field)
  next
    case (UOne entry)
    then show ?thesis using assms Field
      by (auto simp: restartable_def writes_def repeat_def read_slot_set_field)
  qed (use assms in \<open>simp_all add: restartable_def\<close>)
next
  case (Sub nm c')
  show ?thesis
  proof (cases "b_update b")
    case (UCoord name c)
    then show ?thesis using assms Sub
      by (cases c; cases c') (auto simp: restartable_def writes_def repeat_def get_point_def)
  next
    case (UPoint entry)
    then show ?thesis using assms Sub
      by (cases c') (auto simp: restartable_def writes_def repeat_def get_point_def)
  next
    case UPosition
    then show ?thesis using assms Sub
      by (cases c') (auto simp: restartable_def writes_def repeat_def set_field_def get_point_def)
  next
    case (UOne entry)
    then show ?thesis using assms Sub
      by (cases c') (auto simp: restartable_def writes_def repeat_def set_field_def get_point_def)
  qed (use assms in \<open>simp_all add: restartable_def\<close>)
qed

lemma fold_repeat_other:
  assumes "\<forall>b\<in>set bs. restartable b" and "(r, sl) \<notin> set (concat (map driven bs))"
  shows "read_slot sl (els (fold (\<lambda>b. on_element (b_element b) (repeat b)) bs w) r)
           = read_slot sl (els w r)"
  using assms
proof (induction bs arbitrary: w)
  case Nil
  then show ?case by simp
next
  case (Cons a bs)
  have ra: "restartable a" and rb: "\<forall>b\<in>set bs. restartable b" using Cons.prems(1) by simp_all
  have na: "(r, sl) \<notin> set (driven a)" and nb: "(r, sl) \<notin> set (concat (map driven bs))"
    using Cons.prems(2) by simp_all
  have "read_slot sl (els (on_element (b_element a) (repeat a) w) r) = read_slot sl (els w r)"
  proof (cases "r = b_element a")
    case True
    then have "sl \<notin> set (writes a)" using na by (auto simp: driven_def)
    then show ?thesis using True by (simp add: on_element_simps repeat_other[OF ra])
  next
    case False
    then show ?thesis by (simp add: on_element_simps)
  qed
  then show ?case using Cons.IH[OF rb nb, of "on_element (b_element a) (repeat a) w"] by simp
qed

lemma fold_repeat_own:
  assumes "distinct (concat (map driven bs))" and "\<forall>b\<in>set bs. restartable b"
    and "b \<in> set bs" and "sl \<in> set (writes b)"
  shows "read_slot sl (els (fold (\<lambda>b. on_element (b_element b) (repeat b)) bs w) (b_element b))
           = start_value b sl"
  using assms(1,2,3)
proof (induction bs arbitrary: w)
  case Nil
  then show ?case by simp
next
  case (Cons a bs)
  have d: "distinct (concat (map driven bs))" using Cons.prems(1) by simp
  have rb: "\<forall>b\<in>set bs. restartable b" using Cons.prems(2) by simp
  have m: "(b_element b, sl) \<in> set (driven b)" using assms(4) by (simp add: driven_def)
  show ?case
  proof (cases "b \<in> set bs")
    case True
    show ?thesis using Cons.IH[OF d rb True, of "on_element (b_element a) (repeat a) w"] by simp
  next
    case False
    then have ab: "a = b" using Cons.prems(3) by simp
    have rs: "restartable b" using Cons.prems(2) ab by simp
    have "(b_element b, sl) \<notin> set (concat (map driven bs))"
      using Cons.prems(1) m unfolding ab by auto
    then show ?thesis
      using fold_repeat_other[OF rb, of "b_element b" sl "on_element (b_element b) (repeat b) w"]
      by (simp add: ab on_element_simps repeat_own[OF rs assms(4)])
  qed
qed

lemma written_restartable:
  assumes "restartable b"
    and "o_ease (s_options s') = o_ease (s_options s)"
    and "o_duration (s_options s') = o_duration (s_options s)"
    and "s_time s' = s_time s"
  shows "written s' b sl = written s b sl"
  using assms by (auto simp: written_def curve_at_def restartable_def split: updater.splits)

lemma update_waiting:
  assumes "s_eases (sess w sid) \<noteq> []" and "o_wait (s_options (sess w sid)) \<noteq> 0"
    and "o_wait (s_options (sess w sid)) - e > 0"
  shows "\<not> fst (Easing_update no_listeners sid e w)"
    "sess (snd (Easing_update no_listeners sid e w)) sid =
       (sess w sid)\<lparr>s_options := (s_options (sess w sid))\<lparr>o_wait := o_wait (s_options (sess w sid)) - e\<rparr>\<rparr>"
    "els (snd (Easing_update no_listeners sid e w)) = els w"
    "lifecycle sid (snd (Easing_update no_listeners sid e w)) = lifecycle sid w"
  using assms
  by (simp_all add: Easing_update_def Let_def emit_no_listeners with_log_simps on_session_simps
      lifecycle_def)

lemma update_served:
  assumes "s_eases (sess w sid) \<noteq> []"
    and "\<not> (o_wait (s_options (sess w sid)) \<noteq> 0 \<and> o_wait (s_options (sess w sid)) - e > 0)"
  obtains w2 where
    "Easing_update no_listeners sid e w =
       advance no_listeners sid
         (if o_wait (s_options (sess w sid)) \<noteq> 0 then e - o_wait (s_options (sess w sid)) else e) w2"
    "sess w2 sid = (sess w sid)\<lparr>s_options := (s_options (sess w sid))\<lparr>o_wait := 0\<rparr>\<rparr>"
    "els w2 = els w" "lifecycle sid w2 = lifecycle sid w"
proof (cases "o_wait (s_options (sess w sid)) = 0")
  case True
  have "Easing_update no_listeners sid e w = advance no_listeners sid
         (if o_wait (s_options (sess w sid)) \<noteq> 0 then e - o_wait (s_options (sess w sid)) else e) w"
    using assms(1) True by (simp add: Easing_update_def)
  moreover have "sess w sid = (sess w sid)\<lparr>s_options := (s_options (sess w sid))\<lparr>o_wait := 0\<rparr>\<rparr>"
    using True by simp
  ultimately show ?thesis using that[of w] by simp
next
  case False
  define w2 where "w2 = emit no_listeners (Session sid) EvWaitEnd
        (on_session sid (\<lambda>s. s\<lparr>s_options := (s_options s)\<lparr>o_wait := 0\<rparr>\<rparr>)
          (on_session sid (\<lambda>s. s\<lparr>s_options := (s_options s)\<lparr>o_wait :=
              o_wait (s_options (sess w sid)) - e\<rparr>\<rparr>) w))"
  have "Easing_update no_listeners sid e w = advance no_listeners sid
         (if o_wait (s_options (sess w sid)) \<noteq> 0 then e - o_wait (s_options (sess w sid)) else e) w2"
    using assms False by (simp add: Easing_update_def w2_def Let_def)
  moreover have "sess w2 sid = (sess w sid)\<lparr>s_options := (s_options (sess w sid))\<lparr>o_wait := 0\<rparr>\<rparr>"
    "els w2 = els w" "lifecycle sid w2 = lifecycle sid w"
    by (simp_all add: w2_def emit_no_listeners with_log_simps on_session_simps lifecycle_def)
  ultimately show ?thesis using that[of w2] by simp
qed

lemma advance_phase:
  assumes "live sid w" and "\<not> o_reverse (s_options (sess w sid))"
  shows
   "(let s = sess w sid; r = o_repeat (s_options s); d = o_duration (s_options s);
         t = s_time s + e; result = advance no_listeners sid e w; w' = snd result
     in live sid w'
        \<and> (if t < d then
              \<not> fst result \<and> sess w' sid = s\<lparr>s_time := t\<rparr> \<and> lifecycle sid w' = lifecycle sid w
            else if truthy_repeat r then
              \<not> fst result
              \<and> sess w' sid = s\<lparr>s_time := t - d,
                    s_options := (s_options s)\<lparr>o_repeat := (if r = RBool True then r else dec_repeat r)\<rparr>\<rparr>
              \<and> lifecycle sid w' = lifecycle sid w @ [EvRepeat]
              \<and> els w' = els (carry_over sid (t - d) (repeat_all sid (snd (first_pass sid e w))))
            else fst result \<and> lifecycle sid w' = lifecycle sid w @ [EvComplete]
              \<and> els w' = els (complete_all sid (snd (first_pass sid e w)))))"
proof -
  have l: "\<forall>b\<in>set (s_eases (sess w sid)). \<not> el_destroyed (els w (b_element b))"
    using assms(1) by (simp add: live_def)
  have ne: "s_eases (sess w sid) \<noteq> []" using assms(1) by (simp add: live_def)
  note fp = first_pass_live[OF l]
  show ?thesis
    using l ne assms(2)
    by (simp add: advance_def Let_def split_beta emit_no_listeners fp with_log_simps live_def
      repeat_phase_def complete_phase_def carry_over_with_log repeat_all_with_log
      complete_all_with_log on_session_with_log
      carry_over_frame repeat_all_frame complete_all_frame on_session_simps lifecycle_def)
qed

lemma update_phase:
  assumes "live sid w" and "\<not> o_reverse (s_options (sess w sid))"
  shows
   "(let s = sess w sid; wt = o_wait (s_options s); r = o_repeat (s_options s);
         d = o_duration (s_options s); t = s_time s + (if wt \<noteq> 0 then e - wt else e);
         result = Easing_update no_listeners sid e w; w' = snd result
     in live sid w'
        \<and> (if wt \<noteq> 0 \<and> wt - e > 0 then
              \<not> fst result \<and> sess w' sid = s\<lparr>s_options := (s_options s)\<lparr>o_wait := wt - e\<rparr>\<rparr>
              \<and> lifecycle sid w' = lifecycle sid w
            else if t < d then
              \<not> fst result \<and> sess w' sid = s\<lparr>s_time := t, s_options := (s_options s)\<lparr>o_wait := 0\<rparr>\<rparr>
              \<and> lifecycle sid w' = lifecycle sid w
            else if truthy_repeat r then
              \<not> fst result
              \<and> sess w' sid = s\<lparr>s_time := t - d,
                    s_options := (s_options s)\<lparr>o_wait := 0,
                       o_repeat := (if r = RBool True then r else dec_repeat r)\<rparr>\<rparr>
              \<and> lifecycle sid w' = lifecycle sid w @ [EvRepeat]
            else fst result \<and> lifecycle sid w' = lifecycle sid w @ [EvComplete]))"
proof (cases "o_wait (s_options (sess w sid)) \<noteq> 0 \<and> o_wait (s_options (sess w sid)) - e > 0")
  case True
  have ne: "s_eases (sess w sid) \<noteq> []" using assms(1) by (simp add: live_def)
  note uw = update_waiting[OF ne, of e]
  show ?thesis using True uw assms by (simp add: Let_def live_def)
next
  case False
  have ne: "s_eases (sess w sid) \<noteq> []" using assms(1) by (simp add: live_def)
  from update_served[OF ne False] obtain w2 where w2:
    "Easing_update no_listeners sid e w =
       advance no_listeners sid
         (if o_wait (s_options (sess w sid)) \<noteq> 0 then e - o_wait (s_options (sess w sid)) else e) w2"
    "sess w2 sid = (sess w sid)\<lparr>s_options := (s_options (sess w sid))\<lparr>o_wait := 0\<rparr>\<rparr>"
    "els w2 = els w" "lifecycle sid w2 = lifecycle sid w"
    by blast
  have l2: "live sid w2" using assms(1) by (simp add: live_def w2(2,3))
  have r2: "\<not> o_reverse (s_options (sess w2 sid))" using assms(2) by (simp add: w2(2))
  note ap = advance_phase[OF l2 r2,
      of "if o_wait (s_options (sess w sid)) \<noteq> 0 then e - o_wait (s_options (sess w sid)) else e"]
  show ?thesis using False ap unfolding w2(1) by (simp add: Let_def w2(2,4) split: if_splits)
qed

lemma boundary_slots:
  assumes "live sid w" and "\<not> o_reverse (s_options (sess w sid))"
    and "\<not> (o_wait (s_options (sess w sid)) \<noteq> 0 \<and> o_wait (s_options (sess w sid)) - e > 0)"
    and "t = s_time (sess w sid)
           + (if o_wait (s_options (sess w sid)) \<noteq> 0 then e - o_wait (s_options (sess w sid)) else e)"
    and "o_duration (s_options (sess w sid)) \<le> t"
    and "\<forall>b\<in>set (s_eases (sess w sid)). restartable b"
    and "distinct (concat (map driven (s_eases (sess w sid))))"
    and "b \<in> set (s_eases (sess w sid))" and "sl \<in> set (writes b)"
  shows "read_slot sl (els (snd (Easing_update no_listeners sid e w)) (b_element b)) =
     (if truthy_repeat (o_repeat (s_options (sess w sid))) then
        (if t - o_duration (s_options (sess w sid)) = 0 then start_value b sl
         else written ((sess w sid)\<lparr>s_time := t - o_duration (s_options (sess w sid))\<rparr>) b sl)
      else written ((sess w sid)\<lparr>s_time := o_duration (s_options (sess w sid))\<rparr>) b sl)"
proof -
  let ?s = "sess w sid"
  let ?d = "o_duration (s_options ?s)"
  let ?B = "s_eases ?s"
  define e' where "e' = (if o_wait (s_options ?s) \<noteq> 0 then e - o_wait (s_options ?s) else e)"
  have ne: "?B \<noteq> []" using assms(1) by (simp add: live_def)
  from update_served[OF ne assms(3)] obtain w2 where w2:
    "Easing_update no_listeners sid e w = advance no_listeners sid e' w2"
    "sess w2 sid = ?s\<lparr>s_options := (s_options ?s)\<lparr>o_wait := 0\<rparr>\<rparr>"
    "els w2 = els w" "lifecycle sid w2 = lifecycle sid w"
    unfolding e'_def by blast
  have l2: "live sid w2" using assms(1) by (simp add: live_def w2(2,3))
  have r2: "\<not> o_reverse (s_options (sess w2 sid))" using assms(2) by (simp add: w2(2))
  have ld: "\<forall>b\<in>set (s_eases (sess w2 sid)). \<not> el_destroyed (els w2 (b_element b))"
    using l2 by (simp add: live_def)
  have hit: "o_duration (s_options (sess w2 sid)) \<le> s_time (sess w2 sid) + e'"
    using assms(4,5) by (simp add: w2(2) e'_def)
  define mid where "mid = snd (first_pass sid e' w2)"
  define wD where "wD = on_session sid (\<lambda>s. s\<lparr>s_time := ?d\<rparr>) w2"
  have ms: "sess mid sid = ?s\<lparr>s_time := ?d, s_options := (s_options ?s)\<lparr>o_wait := 0\<rparr>\<rparr>"
    using first_pass_live(2)[OF ld, of e'] hit by (simp add: mid_def w2(2))
  have me: "els mid = els (fold (run_update sid) ?B wD)"
    using first_pass_els[OF ld, of e'] hit by (simp add: mid_def wD_def w2(2))
  have st: "steady b" using assms(6,8) by (simp add: restartable_steady)
  have rb: "restartable b" using assms(6,8) by simp
  note ap = advance_phase[OF l2 r2, of e', unfolded Let_def, folded mid_def]
  have tt: "s_time (sess w sid) + e' = t" using assms(4) by (simp add: e'_def)
  show ?thesis
  proof (cases "truthy_repeat (o_repeat (s_options ?s))")
    case True
    have ev: "els (snd (advance no_listeners sid e' w2)) = els (carry_over sid (t - ?d) (repeat_all sid mid))"
      using ap hit True by (simp add: w2(2) tt)
    show ?thesis
    proof (cases "t - ?d = 0")
      case z: True
      have "els (carry_over sid (t - ?d) (repeat_all sid mid)) =
          els (fold (\<lambda>b. on_element (b_element b) (repeat b)) ?B mid)"
        using z by (simp add: carry_over_def Let_def on_session_simps repeat_all_def ms)
      then show ?thesis unfolding w2(1) ev using True z
        by (simp add: fold_repeat_own[OF assms(7,6,8,9)])
    next
      case nz: False
      define x1 where "x1 = on_session sid (\<lambda>s. s\<lparr>s_time := t - ?d\<rparr>) (repeat_all sid mid)"
      have xs: "sess x1 sid = ?s\<lparr>s_time := t - ?d, s_options := (s_options ?s)\<lparr>o_wait := 0\<rparr>\<rparr>"
        by (simp add: x1_def on_session_simps repeat_all_frame ms)
      have "els (carry_over sid (t - ?d) (repeat_all sid mid)) = els (fold (run_update sid) ?B x1)"
        using nz by (simp add: carry_over_def Let_def update_all_def x1_def[symmetric] xs)
      moreover have "read_slot sl (els (fold (run_update sid) ?B x1) (b_element b)) = written (sess x1 sid) b sl"
        by (rule fold_run_update_own[OF assms(7,8) st assms(9)])
      moreover have "written (sess x1 sid) b sl = written (?s\<lparr>s_time := t - ?d\<rparr>) b sl"
        by (rule written_restartable[OF rb]) (simp_all add: xs)
      ultimately show ?thesis unfolding w2(1) ev using True nz by simp
    qed
  next
    case False
    have ev: "els (snd (advance no_listeners sid e' w2)) = els (complete_all sid mid)"
      using ap hit False by (simp add: w2(2) tt)
    have "\<forall>b\<in>set (s_eases (sess mid sid)). b_entry b \<noteq> ''shake''"
      using assms(6) by (auto simp: ms dest: restartable_entry)
    then have "els (complete_all sid mid) = els mid"
      unfolding complete_all_def by (rule fold_complete_id)
    moreover have "read_slot sl (els (fold (run_update sid) ?B wD) (b_element b)) = written (sess wD sid) b sl"
      by (rule fold_run_update_own[OF assms(7,8) st assms(9)])
    moreover have "written (sess wD sid) b sl = written (?s\<lparr>s_time := ?d\<rparr>) b sl"
      by (rule written_restartable[OF rb]) (simp_all add: wD_def on_session_simps w2(2))
    ultimately show ?thesis unfolding w2(1) ev using False by (simp add: me)
  qed
qed

lemma run_phases:
  assumes "live sid w" and "\<not> o_reverse (s_options (sess w sid))"
    and "o_repeat (s_options (sess w sid)) = RNum (real n)"
    and "timeline (o_duration (s_options (sess w sid)))
           (o_wait (s_options (sess w sid)), s_time (sess w sid), 0) es = (wt', t', k)"
  shows "lifecycle sid (snd (run_session no_listeners sid es w)) =
           lifecycle sid w @ take k (replicate n EvRepeat @ [EvComplete])"
    and "fst (run_session no_listeners sid es w) \<longleftrightarrow> n < k"
    and "k \<le> n \<Longrightarrow> live sid (snd (run_session no_listeners sid es w))"
    and "k \<le> n \<Longrightarrow> sess (snd (run_session no_listeners sid es w)) sid =
           (sess w sid)\<lparr>s_time := t',
              s_options := (s_options (sess w sid))\<lparr>o_wait := wt', o_repeat := RNum (real (n - k))\<rparr>\<rparr>"
proof -
  have "lifecycle sid (snd (run_session no_listeners sid es w)) =
           lifecycle sid w @ take k (replicate n EvRepeat @ [EvComplete])
     \<and> (fst (run_session no_listeners sid es w) \<longleftrightarrow> n < k)
     \<and> (k \<le> n \<longrightarrow> live sid (snd (run_session no_listeners sid es w))
          \<and> sess (snd (run_session no_listeners sid es w)) sid =
           (sess w sid)\<lparr>s_time := t',
              s_options := (s_options (sess w sid))\<lparr>o_wait := wt', o_repeat := RNum (real (n - k))\<rparr>\<rparr>)"
    using assms
  proof (induction es arbitrary: w n k)
    case Nil
    then show ?case by simp
  next
    case (Cons e es)
    let ?s = "sess w sid"
    let ?d = "o_duration (s_options ?s)"
    let ?wt = "o_wait (s_options ?s)"
    define res where "res = Easing_update no_listeners sid e w"
    define w1 where "w1 = snd res"
    define t1 where "t1 = s_time ?s + (if ?wt \<noteq> 0 then e - ?wt else e)"
    note up = update_phase[OF Cons.prems(1,2), of e, unfolded Let_def, folded res_def,
        folded w1_def, folded t1_def]
    have l1: "live sid w1" using up by simp
    have run: "run_session no_listeners sid (e # es) w =
        (if fst res then (True, w1) else run_session no_listeners sid es w1)"
      by (simp add: res_def w1_def split_beta)
    show ?case
    proof (cases "?wt \<noteq> 0 \<and> ?wt - e > 0")
      case True
      have a: "\<not> fst res" "sess w1 sid = ?s\<lparr>s_options := (s_options ?s)\<lparr>o_wait := ?wt - e\<rparr>\<rparr>"
        "lifecycle sid w1 = lifecycle sid w"
        using up True by simp_all
      have tl: "timeline (o_duration (s_options (sess w1 sid)))
           (o_wait (s_options (sess w1 sid)), s_time (sess w1 sid), 0) es = (wt', t', k)"
        using Cons.prems(4) unfolding timeline_wait[OF True] by (simp add: a(2))
      have p: "\<not> o_reverse (s_options (sess w1 sid))"
        "o_repeat (s_options (sess w1 sid)) = RNum (real n)"
        using Cons.prems(2,3) by (simp_all add: a(2))
      show ?thesis unfolding run using Cons.IH[OF l1 p tl] a(1) by (simp add: a(2,3))
    next
      case served: False
      show ?thesis
      proof (cases "t1 < ?d")
        case True
        have a: "\<not> fst res"
          "sess w1 sid = ?s\<lparr>s_time := t1, s_options := (s_options ?s)\<lparr>o_wait := 0\<rparr>\<rparr>"
          "lifecycle sid w1 = lifecycle sid w"
          using up served True by simp_all
        have tl: "timeline (o_duration (s_options (sess w1 sid)))
             (o_wait (s_options (sess w1 sid)), s_time (sess w1 sid), 0) es = (wt', t', k)"
          using Cons.prems(4) unfolding timeline_inside[OF served t1_def True] by (simp add: a(2))
        have p: "\<not> o_reverse (s_options (sess w1 sid))"
          "o_repeat (s_options (sess w1 sid)) = RNum (real n)"
          using Cons.prems(2,3) by (simp_all add: a(2))
        show ?thesis unfolding run using Cons.IH[OF l1 p tl] a(1) by (simp add: a(2,3))
      next
        case hit: False
        obtain wt2 t2 j where tj: "timeline ?d (0, t1 - ?d, 0) es = (wt2, t2, j)"
          by (cases "timeline ?d (0, t1 - ?d, 0) es") auto
        have "timeline ?d (?wt, s_time ?s, 0) (e # es) = timeline ?d (0, t1 - ?d, Suc 0) es"
          by (rule timeline_cross[OF served t1_def hit])
        also have "\<dots> = (wt2, t2, Suc j)"
          using timeline_count[of ?d 0 "t1 - ?d" "Suc 0" es] by (simp add: tj)
        finally have k: "wt' = wt2" "t' = t2" "k = Suc j" using Cons.prems(4) by simp_all
        show ?thesis
        proof (cases n)
          case 0
          then have a: "fst res" "lifecycle sid w1 = lifecycle sid w @ [EvComplete]"
            using up served hit Cons.prems(3) by simp_all
          show ?thesis unfolding run using a 0 k by simp
        next
          case (Suc m)
          then have a: "\<not> fst res"
            "sess w1 sid = ?s\<lparr>s_time := t1 - ?d,
               s_options := (s_options ?s)\<lparr>o_wait := 0, o_repeat := RNum (real m)\<rparr>\<rparr>"
            "lifecycle sid w1 = lifecycle sid w @ [EvRepeat]"
            using up served hit Cons.prems(3) by simp_all
          have tl: "timeline (o_duration (s_options (sess w1 sid)))
               (o_wait (s_options (sess w1 sid)), s_time (sess w1 sid), 0) es = (wt', t', j)"
            using tj k(1,2) by (simp add: a(2))
          have p: "\<not> o_reverse (s_options (sess w1 sid))"
            "o_repeat (s_options (sess w1 sid)) = RNum (real m)"
            using Cons.prems(2) by (simp_all add: a(2))
          show ?thesis unfolding run using Cons.IH[OF l1 p tl] a(1) Suc k by (simp add: a(2,3))
        qed
      qed
    qed
  qed
  then show "lifecycle sid (snd (run_session no_listeners sid es w)) =
           lifecycle sid w @ take k (replicate n EvRepeat @ [EvComplete])"
    and "fst (run_session no_listeners sid es w) \<longleftrightarrow> n < k"
    and "k \<le> n \<Longrightarrow> live sid (snd (run_session no_listeners sid es w))"
    and "k \<le> n \<Longrightarrow> sess (snd (run_session no_listeners sid es w)) sid =
           (sess w sid)\<lparr>s_time := t',
              s_options := (s_options (sess w sid))\<lparr>o_wait := wt', o_repeat := RNum (real (n - k))\<rparr>\<rparr>"
    by simp_all
qed

text \<open>
  C8, as the code has it, for a live session driven by any list of increments with no
  listener attached.  Let \<open>k\<close> be the number of phase boundaries the increments pass
  by the arithmetic of \<open>timeline\<close>, and \<open>t'\<close> and \<open>wt'\<close> the clock and the pending
  wait it ends with.  With \<open>reverse\<close> unset and \<open>repeat = 3\<close> the session answers its
  boundaries in order with \<open>repeat\<close>, \<open>repeat\<close>, \<open>repeat\<close>, \<open>complete\<close> and reports
  finished exactly when the fourth boundary is reached; up to the third boundary its
  clock is \<open>t'\<close>, its wait \<open>wt'\<close> and its repeat count \<open>3 - k\<close>.  When the bindings are
  restartable and write pairwise different slots and the last increment reaches a
  boundary, every slot a binding writes holds, after each of the first three
  boundaries, the binding's start when the leftover is 0 and the value of the curve
  at the leftover otherwise, and after the fourth the value of the curve at the
  duration.  A live session with \<open>repeat = true\<close> never reports finished.
\<close>

theorem repeat_three_then_finish:
  assumes "live sid w"
  shows
   "(let s = sess w sid; d = o_duration (s_options s);
         start = (o_wait (s_options s), s_time s, 0);
         result = run_session no_listeners sid es w; w' = snd result
     in (\<not> o_reverse (s_options s) \<and> o_repeat (s_options s) = RNum 3 \<longrightarrow>
          (case (timeline d start (butlast es), timeline d start es) of
             ((wt0, t0, k0), (wt', t', k)) \<Rightarrow>
               lifecycle sid w' =
                 lifecycle sid w @ take k [EvRepeat, EvRepeat, EvRepeat, EvComplete]
               \<and> (fst result \<longleftrightarrow> 4 \<le> k)
               \<and> (k \<le> 3 \<longrightarrow>
                    sess w' sid =
                      s\<lparr>s_time := t',
                        s_options := (s_options s)\<lparr>o_wait := wt', o_repeat := RNum (real (3 - k))\<rparr>\<rparr>)
               \<and> ((\<forall>b\<in>set (s_eases s). restartable b)
                    \<and> distinct (concat (map driven (s_eases s)))
                    \<and> es \<noteq> [] \<and> k = Suc k0 \<and> k \<le> 4 \<longrightarrow>
                    (\<forall>b\<in>set (s_eases s). \<forall>sl\<in>set (writes b).
                       read_slot sl (els w' (b_element b)) =
                         (if k = 4 then written (s\<lparr>s_time := d\<rparr>) b sl
                          else if t' = 0 then start_value b sl
                          else written (s\<lparr>s_time := t'\<rparr>) b sl)))))
        \<and> (o_repeat (s_options s) = RBool True \<longrightarrow> \<not> fst result))"
proof -
  let ?s = "sess w sid"
  let ?d = "o_duration (s_options ?s)"
  let ?start = "(o_wait (s_options ?s), s_time ?s, 0::nat)"
  let ?B = "s_eases ?s"
  obtain wt0 t0 k0 where tb: "timeline ?d ?start (butlast es) = (wt0, t0, k0)"
    by (cases "timeline ?d ?start (butlast es)") auto
  obtain wt' t' k where te: "timeline ?d ?start es = (wt', t', k)"
    by (cases "timeline ?d ?start es") auto
  have forever: "\<not> fst (run_session no_listeners sid es w)"
    if "o_repeat (s_options ?s) = RBool True"
    using that by (rule run_forever[OF assms])
  have three: "lifecycle sid (snd (run_session no_listeners sid es w)) =
                 lifecycle sid w @ take k [EvRepeat, EvRepeat, EvRepeat, EvComplete]
               \<and> (fst (run_session no_listeners sid es w) \<longleftrightarrow> 4 \<le> k)
               \<and> (k \<le> 3 \<longrightarrow>
                    sess (snd (run_session no_listeners sid es w)) sid =
                      ?s\<lparr>s_time := t',
                        s_options := (s_options ?s)\<lparr>o_wait := wt', o_repeat := RNum (real (3 - k))\<rparr>\<rparr>)
               \<and> ((\<forall>b\<in>set ?B. restartable b)
                    \<and> distinct (concat (map driven ?B))
                    \<and> es \<noteq> [] \<and> k = Suc k0 \<and> k \<le> 4 \<longrightarrow>
                    (\<forall>b\<in>set ?B. \<forall>sl\<in>set (writes b).
                       read_slot sl (els (snd (run_session no_listeners sid es w)) (b_element b)) =
                         (if k = 4 then written (?s\<lparr>s_time := ?d\<rparr>) b sl
                          else if t' = 0 then start_value b sl
                          else written (?s\<lparr>s_time := t'\<rparr>) b sl)))"
    if nr: "\<not> o_reverse (s_options ?s)" and r3: "o_repeat (s_options ?s) = RNum 3"
  proof -
    have r: "o_repeat (s_options ?s) = RNum (real (3::nat))" using r3 by simp
    have e3: "replicate 3 EvRepeat @ [EvComplete] = [EvRepeat, EvRepeat, EvRepeat, EvComplete]"
      by (simp add: numeral_3_eq_3)
    note rp = run_phases[OF assms nr r te]
    have c1: "lifecycle sid (snd (run_session no_listeners sid es w)) =
                 lifecycle sid w @ take k [EvRepeat, EvRepeat, EvRepeat, EvComplete]"
      using rp(1) by (simp only: e3)
    have c2: "fst (run_session no_listeners sid es w) \<longleftrightarrow> 4 \<le> k"
      using rp(2) by auto
    have c3: "k \<le> 3 \<longrightarrow>
                    sess (snd (run_session no_listeners sid es w)) sid =
                      ?s\<lparr>s_time := t',
                        s_options := (s_options ?s)\<lparr>o_wait := wt', o_repeat := RNum (real (3 - k))\<rparr>\<rparr>"
      using rp(4) by simp
    have c4: "read_slot sl (els (snd (run_session no_listeners sid es w)) (b_element b)) =
                         (if k = 4 then written (?s\<lparr>s_time := ?d\<rparr>) b sl
                          else if t' = 0 then start_value b sl
                          else written (?s\<lparr>s_time := t'\<rparr>) b sl)"
      if rs: "\<forall>b\<in>set ?B. restartable b" and di: "distinct (concat (map driven ?B))"
        and ne: "es \<noteq> []" and kk: "k = Suc k0" and k4: "k \<le> 4"
        and b: "b \<in> set ?B" and sl: "sl \<in> set (writes b)" for b sl
    proof -
      define e where "e = last es"
      have es: "es = butlast es @ [e]" using ne by (simp add: e_def)
      have k03: "k0 \<le> 3" using kk k4 by simp
      note rb = run_phases[OF assms nr r tb]
      define w1 where "w1 = snd (run_session no_listeners sid (butlast es) w)"
      have nf: "\<not> fst (run_session no_listeners sid (butlast es) w)" using rb(2) k03 by simp
      have l1: "live sid w1" using rb(3)[OF k03] by (simp add: w1_def)
      have s1: "sess w1 sid = ?s\<lparr>s_time := t0,
          s_options := (s_options ?s)\<lparr>o_wait := wt0, o_repeat := RNum (real (3 - k0))\<rparr>\<rparr>"
        using rb(4)[OF k03] by (simp add: w1_def)
      have run: "run_session no_listeners sid es w = Easing_update no_listeners sid e w1"
        using run_session_append[OF nf, of "[e]"] es
        by (simp add: w1_def run_session_single del: run_session.simps)
      have "timeline ?d ?start es = timeline ?d (wt0, t0, k0) [e]"
        using timeline_append[of ?d ?start "butlast es" "[e]"] es by (simp add: tb)
      then have tl: "timeline ?d (wt0, t0, k0) [e] = (wt', t', Suc k0)" using te kk by simp
      note last = timeline_last[OF tl]
      define t1 where "t1 = t0 + (if wt0 \<noteq> 0 then e - wt0 else e)"
      have nr1: "\<not> o_reverse (s_options (sess w1 sid))" using nr by (simp add: s1)
      have nw1: "\<not> (o_wait (s_options (sess w1 sid)) \<noteq> 0 \<and> o_wait (s_options (sess w1 sid)) - e > 0)"
        using last(1) by (simp add: s1)
      have tt1: "t1 = s_time (sess w1 sid)
           + (if o_wait (s_options (sess w1 sid)) \<noteq> 0 then e - o_wait (s_options (sess w1 sid)) else e)"
        by (simp add: s1 t1_def)
      have hit1: "o_duration (s_options (sess w1 sid)) \<le> t1"
        using last(2) by (simp add: s1 t1_def)
      have rs1: "\<forall>b\<in>set (s_eases (sess w1 sid)). restartable b" using rs by (simp add: s1)
      have di1: "distinct (concat (map driven (s_eases (sess w1 sid))))" using di by (simp add: s1)
      have b1: "b \<in> set (s_eases (sess w1 sid))" using b by (simp add: s1)
      note bs = boundary_slots[OF l1 nr1 nw1 tt1 hit1 rs1 di1 b1 sl]
      have rbq: "restartable b" using rs b by simp
      have w_l: "written ((sess w1 sid)\<lparr>s_time := x\<rparr>) b sl = written (?s\<lparr>s_time := x\<rparr>) b sl" for x
        by (rule written_restartable[OF rbq]) (simp_all add: s1)
      have tr: "truthy_repeat (o_repeat (s_options (sess w1 sid))) \<longleftrightarrow> k \<noteq> 4"
        using kk k4 by (auto simp: s1)
      have t'': "t1 - ?d = t'"
        using last(3) by (simp add: t1_def)
      have d1: "o_duration (s_options (sess w1 sid)) = ?d" by (simp add: s1)
      show ?thesis unfolding run bs d1 t'' tr w_l by simp
    qed
    show ?thesis using c1 c2 c3 c4 by blast
  qed
  show ?thesis
    unfolding Let_def tb te using three forever by (simp only: prod.case) blast
qed

text \<open>
  C8 on a session over \<open>x\<close> from 0 to 100 with duration 10 and \<open>repeat = 3\<close>: after
  the increment 10 the first boundary is passed with no leftover and \<open>x\<close> is back at
  0; after 10 and 15 the second boundary is passed with leftover 5 and \<open>x\<close> is 50;
  after 10, 15, 5 and 10 the fourth boundary is reached, the session reports finished
  and \<open>x\<close> stays at 100.  The session with \<open>repeat = true\<close> is updated twice by 16.
\<close>

theorem repeat_three_then_finish_witness:
  "live 0 thrice \<and> \<not> o_reverse (s_options (sess thrice 0))
   \<and> o_repeat (s_options (sess thrice 0)) = RNum 3
   \<and> list_all restartable (s_eases (sess thrice 0))
   \<and> distinct (concat (map driven (s_eases (sess thrice 0))))
   \<and> timeline 10 (0, 0, 0) [10] = (0, 0, 1)
   \<and> \<not> fst (run_session no_listeners 0 [10] thrice)
   \<and> lifecycle 0 (snd (run_session no_listeners 0 [10] thrice)) = [EvRepeat]
   \<and> el_field (els (snd (run_session no_listeners 0 [10] thrice)) 0) ''x'' = Num 0
   \<and> timeline 10 (0, 0, 0) [10, 15] = (0, 5, 2)
   \<and> el_field (els (snd (run_session no_listeners 0 [10, 15] thrice)) 0) ''x'' = Num 50
   \<and> timeline 10 (0, 0, 0) [10, 15, 5, 10] = (0, 0, 4)
   \<and> fst (run_session no_listeners 0 [10, 15, 5, 10] thrice)
   \<and> lifecycle 0 (snd (run_session no_listeners 0 [10, 15, 5, 10] thrice)) =
        [EvRepeat, EvRepeat, EvRepeat, EvComplete]
   \<and> el_field (els (snd (run_session no_listeners 0 [10, 15, 5, 10] thrice)) 0) ''x'' = Num 100
   \<and> live 0 looping \<and> o_repeat (s_options (sess looping 0)) = RBool True
   \<and> \<not> fst (run_session no_listeners 0 [16, 16] looping)"
  using repeat_three_then_finish[OF thrice_live, of "[10]"]
    repeat_three_then_finish[OF thrice_live, of "[10, 15]"]
    repeat_three_then_finish[OF thrice_live, of "[10, 15, 5, 10]"]
    repeat_three_then_finish[OF looping_live, of "[16, 16]"] thrice_live looping_live
  by (simp add: thrice_session looping_session Let_def lifecycle_def restartable_def driven_def
      writes_def written_def start_value_def curve_at_def linear_def num_def)

text \<open>
  C8 as stated lets a session with \<open>repeat = true\<close> never report finished.  When the
  target of the session has been destroyed, the first update prunes its only binding
  and the second update reports finished.
\<close>

theorem destroyed_target_ends_repeat:
  "o_repeat (s_options (sess orphaned 0)) = RBool True
   \<and> s_eases (sess orphaned 0) \<noteq> []
   \<and> el_destroyed (els orphaned 0)
   \<and> \<not> fst (Easing_update no_listeners 0 16 orphaned)
   \<and> fst (run_session no_listeners 0 [16, 16] orphaned)"
  by (simp add: orphaned_def looping_session looping_els sprite_def
      Easing_update_def advance_def first_pass_def Let_def split_beta
      on_session_def on_element_def emit_def with_log_def no_listeners_def repeat_phase_def
      carry_over_def update_all_def repeat_all_def)

subsection \<open>Registering tint and blend\<close>

lemma channels:
  fixes c :: int
  shows "shr c 16 = red c" "shr c 8 AND 255 = green c" "c AND 255 = blue c"
    "blue (shr c 8) = green c"
  by (simp_all add: shr_def red_def green_def blue_def and255 drop_bit_eq_div take_bit_eq_mod)

lemma channel_bounds:
  fixes c :: int
  assumes "0 \<le> c" "c < 2 ^ 24"
  shows "0 \<le> red c" "red c < 256" "0 \<le> green c" "green c < 256" "0 \<le> blue c" "blue c < 256"
  using red_bounds[OF assms] by (simp_all add: red_def green_def blue_def drop_bit_eq_div)

lemma mix_bounds:
  assumes "0 \<le> p" "p \<le> 1" "0 \<le> a" "a < 256" "0 \<le> b" "b < 256"
  shows "0 \<le> mix p a b" "mix p a b < 256"
proof -
  let ?v = "(1 - p) * of_int a + p * of_int b"
  have "0 \<le> (1 - p) * of_int a" "0 \<le> p * real_of_int b" using assms by simp_all
  then have "0 \<le> ?v" by linarith
  then show "0 \<le> mix p a b" by (simp add: mix_def)
  have "(1 - p) * of_int a \<le> (1 - p) * 255" using assms by (intro mult_left_mono) simp_all
  moreover have "p * real_of_int b \<le> p * 255" using assms by (intro mult_left_mono) simp_all
  ultimately have "?v \<le> 255" by (simp add: algebra_simps)
  then have "?v < 256" by linarith
  then show "mix p a b < 256" by (simp add: mix_def floor_less_iff)
qed

lemma rgb_pack:
  assumes "0 \<le> x" "x < 256" "0 \<le> y" "y < 256" "0 \<le> z" "z < 256"
  shows "shl x 16 OR shl y 8 OR z = rgb x y z"
proof -
  let ?c = "rgb x y z"
  have e: "x * 65536 + y * 256 + z = z + (x * 256 + y) * 256" by simp
  have "(x * 65536 + y * 256 + z) div 256 = x * 256 + y"
    unfolding e using assms by simp
  moreover have "(x * 256 + y) mod 256 = y" using assms by simp
  ultimately have d8: "take_bit 8 (drop_bit 8 ?c) = y"
    by (simp add: rgb_def drop_bit_eq_div take_bit_eq_mod)
  have "(z + (x * 256 + y) * 256) mod 256 = z mod 256" by (rule mod_mult_self1)
  moreover have "z mod 256 = z" using assms by simp
  ultimately have "(x * 65536 + y * 256 + z) mod 256 = z" by (simp only: e)
  then have t8: "take_bit 8 ?c = z" by (simp add: rgb_def take_bit_eq_mod)
  have e16: "x * 65536 + y * 256 + z = (y * 256 + z) + x * 65536" by simp
  have "y * 256 + z < 65536" "0 \<le> y * 256 + z" using assms by simp_all
  then have "(x * 65536 + y * 256 + z) div 65536 = x" unfolding e16 by simp
  then have d16: "drop_bit 16 ?c = x" by (simp add: rgb_def drop_bit_eq_div)
  have "push_bit 16 x < 2 ^ 24" "0 \<le> push_bit 16 x" using assms by (simp_all add: push_bit_eq_mult)
  then have sx: "shl x 16 = push_bit 16 x" by (simp add: shl_def signed_small)
  have "push_bit 8 y < 2 ^ 24" "0 \<le> push_bit 8 y" using assms by (simp_all add: push_bit_eq_mult)
  then have sy: "shl y 8 = push_bit 8 y" by (simp add: shl_def signed_small)
  show ?thesis using repack[of ?c] unfolding d16 d8 t8 sx sy .
qed

lemma to_int32_byte:
  assumes "0 \<le> v" "v < 256"
  shows "to_int32 (Some v) = \<lfloor>v\<rfloor>"
proof -
  have "0 \<le> \<lfloor>v\<rfloor>" using assms by simp
  moreover have "\<lfloor>v\<rfloor> < 2 ^ 24" using assms by (simp add: floor_less_iff)
  ultimately show ?thesis using assms by (simp add: to_int32_def trunc_def signed_small)
qed

lemma mix_value:
  assumes "0 \<le> p" "p \<le> 1" "0 \<le> a" "a < 256" "0 \<le> b" "b < 256"
  shows "to_int32 (nadd (nmul (nsub (Some 1) (Some p)) (Some (of_int a))) (nmul (Some p) (Some (of_int b))))
         = mix p a b"
proof -
  let ?v = "(1 - p) * of_int a + p * of_int b"
  have "0 \<le> (1 - p) * of_int a" "0 \<le> p * real_of_int b" using assms by simp_all
  then have lo: "0 \<le> ?v" by linarith
  have "(1 - p) * of_int a \<le> (1 - p) * 255" using assms by (intro mult_left_mono) simp_all
  moreover have "p * real_of_int b \<le> p * 255" using assms by (intro mult_left_mono) simp_all
  ultimately have "?v \<le> 255" by (simp add: algebra_simps)
  then have hi: "?v < 256" by linarith
  show ?thesis using to_int32_byte[OF lo hi] by (simp add: nadd_def nmul_def nsub_def mix_def)
qed

lemma blend_color_mix:
  assumes "0 \<le> c0" "c0 < 2 ^ 24" "0 \<le> cv" "cv < 2 ^ 24"
    and "curve_at s (b_start b) (b_delta b) = Some c" and "0 \<le> c" and "c < 1"
  shows "blend_color s b [Num (of_int c0), Num (of_int cv)] = Num (of_int (blended c c0 cv))"
proof -
  have fl: "\<lfloor>c\<rfloor> = 0" using assms(6,7) by (simp add: floor_eq_iff)
  note b0 = channel_bounds[OF assms(1,2)]
  note bv = channel_bounds[OF assms(3,4)]
  have c1: "c \<le> 1" using assms(7) by simp
  note mr = mix_value[OF assms(6) c1 b0(1,2) bv(1,2)]
  note mg = mix_value[OF assms(6) c1 b0(3,4) bv(3,4)]
  note mb = mix_value[OF assms(6) c1 b0(5,6) bv(5,6)]
  note pk = rgb_pack[OF mix_bounds[OF assms(6) c1 b0(1,2) bv(1,2)]
      mix_bounds[OF assms(6) c1 b0(3,4) bv(3,4)] mix_bounds[OF assms(6) c1 b0(5,6) bv(5,6)]]
  have l0: "lookup [Num (of_int c0), Num (of_int cv)] (Some 0) = Num (of_int c0)"
    and l1: "lookup [Num (of_int c0), Num (of_int cv)] (Some 1) = Num (of_int cv)"
    by (simp_all add: lookup_def)
  have i0: "to_int32 (Some (of_int c0)) = c0" and iv: "to_int32 (Some (of_int cv)) = cv"
    using assms(1-4) by (simp_all add: to_int32_small)
  have idx: "Math_floor (Some c) = Some 0" by (simp add: Math_floor_def fl)
  have p: "nsub (Some c) (Some 0) = Some c" by (simp add: nsub_def)
  have n: "nadd (Some 0) (Some 1) = Some 1" by (simp add: nadd_def)
  show ?thesis
    unfolding blend_color_def Let_def assms(5) idx
    by (simp add: n p l0 l1 i0 iv channels mr mg mb pk blended_def)
qed

lemma blend_color_hold:
  assumes "0 \<le> cv" "cv < 2 ^ 24"
    and "curve_at s (b_start b) (b_delta b) = Some c" and "1 \<le> c" and "c \<le> 2"
    and "\<not> o_reverse (s_options s)" and "\<not> truthy_repeat (o_repeat (s_options s))"
  shows "blend_color s b [x, Num (of_int cv)] = Num (of_int cv)"
proof -
  have l1: "lookup [x, Num (of_int cv)] (Some 1) = Num (of_int cv)"
    by (simp add: lookup_def)
  have iv: "to_int32 (Some (of_int cv)) = cv"
    using assms(1,2) by (simp add: to_int32_small)
  have mixx: "\<And>v. (2 - c) * v + (c - 1) * v = v"
    by (simp add: algebra_simps)
  note pk = pack_color[OF assms(1,2)]
  show ?thesis
  proof (cases "c = 2")
    case True
    show ?thesis
      unfolding blend_color_def assms(3) True
      using assms(6,7) pk
      by (simp add: Let_def Math_floor_def nsub_def nadd_def nmul_def l1 iv)
  next
    case False
    then have "\<lfloor>c\<rfloor> = 1" using assms(4,5) by (simp add: floor_eq_iff)
    then have fl: "Math_floor (Some c) = Some 1" by (simp add: Math_floor_def)
    show ?thesis
      unfolding blend_color_def assms(3)
      using assms(6,7) pk
      by (simp add: Let_def fl nsub_def nadd_def nmul_def l1 iv mixx)
  qed
qed

lemma three_bytes:
  fixes c :: int
  assumes "n = q * 256 + g" and "c = n * 256 + m"
  shows "q * 65536 + g * 256 + m = c"
  using assms by simp

lemma blended_at_start: "blended 0 c0 cv = c0"
proof -
  have a: "c0 = (c0 div 256) * 256 + c0 mod 256" by simp
  have b: "c0 div 256 = (c0 div 256 div 256) * 256 + (c0 div 256) mod 256" by simp
  have c: "c0 div 256 div 256 = c0 div 65536"
    using zdiv_zmult2_eq[of 256 c0 256] by simp
  have "c0 div 65536 * 65536 + c0 div 256 mod 256 * 256 + c0 mod 256 = c0"
    by (rule three_bytes[OF b[unfolded c] a])
  then show ?thesis by (simp add: blended_def mix_def rgb_def red_def green_def blue_def)
qed

lemma tint_binding:
  "addParam el r ''tint'' p =
     (let colors = (case p of PArr cs \<Rightarrow> cs | _ \<Rightarrow> [el_field el ''tint'', val_of p]) in
      \<lparr>b_element = r, b_entry = ''tint'', b_update = UTint colors, b_start = Num 0,
       b_to = Num (real (length colors)), b_delta = Num (real (length colors))\<rparr>)"
  by (simp add: addParam_def Let_def)

lemma blend_binding:
  "addParam el r ''blend'' p =
     (let colors = (case p of PArr cs \<Rightarrow> cs | _ \<Rightarrow> [el_field el ''tint'', val_of p]) in
      \<lparr>b_element = r, b_entry = ''blend'', b_update = UBlend colors, b_start = Num 0,
       b_to = Num (real (length colors)), b_delta = Num (real (length colors))\<rparr>)"
  by (simp add: addParam_def Let_def)

lemma color_binding_fields:
  assumes "entry = ''tint'' \<or> entry = ''blend''"
  shows "b_element (addParam el r entry (PNum v)) = r"
    "b_entry (addParam el r entry (PNum v)) = entry"
    "b_start (addParam el r entry (PNum v)) = Num 0"
    "b_delta (addParam el r entry (PNum v)) = Num 2"
    "b_update (addParam el r entry (PNum v)) =
       (if entry = ''tint'' then UTint [el_field el ''tint'', Num v]
        else UBlend [el_field el ''tint'', Num v])"
proof -
  from assms have "addParam el r entry (PNum v) =
     \<lparr>b_element = r, b_entry = entry,
      b_update = (if entry = ''tint'' then UTint [el_field el ''tint'', Num v]
                  else UBlend [el_field el ''tint'', Num v]),
      b_start = Num 0, b_to = Num 2, b_delta = Num 2\<rparr>"
  proof
    assume "entry = ''tint''"
    then show ?thesis by (simp add: tint_binding)
  next
    assume "entry = ''blend''"
    then show ?thesis by (simp add: blend_binding)
  qed
  then show "b_element (addParam el r entry (PNum v)) = r"
    "b_entry (addParam el r entry (PNum v)) = entry"
    "b_start (addParam el r entry (PNum v)) = Num 0"
    "b_delta (addParam el r entry (PNum v)) = Num 2"
    "b_update (addParam el r entry (PNum v)) =
       (if entry = ''tint'' then UTint [el_field el ''tint'', Num v]
        else UBlend [el_field el ''tint'', Num v])"
    by simp_all
qed

lemma color_frame:
  assumes "entry = ''tint'' \<or> entry = ''blend''"
    and "el_field el ''tint'' = Num (of_int c0)"
    and "0 \<le> c0" "c0 < 2 ^ 24" "0 \<le> cv" "cv < 2 ^ 24"
    and "\<not> o_reverse (s_options (sess w sid))"
    and "\<not> truthy_repeat (o_repeat (s_options (sess w sid)))"
    and "o_ease (s_options (sess w sid)) (s_time (sess w sid)) (Num 0) (Num 2)
           (o_duration (s_options (sess w sid))) = Some c"
  shows "0 \<le> c \<and> c < 1 \<Longrightarrow>
           el_field (els (run_update sid (addParam el r entry (PNum (of_int cv))) w) r) ''tint'' =
             (if entry = ''tint'' then Num (of_int c0) else Num (of_int (blended c c0 cv)))"
    and "1 \<le> c \<and> c \<le> 2 \<Longrightarrow>
           el_field (els (run_update sid (addParam el r entry (PNum (of_int cv))) w) r) ''tint'' =
             Num (of_int cv)"
proof -
  define bd where "bd = addParam el r entry (PNum (of_int cv))"
  define cs where "cs = [Num (of_int c0), Num (real_of_int cv)]"
  note b = color_binding_fields[OF assms(1), of el r "of_int cv", unfolded assms(2),
      folded bd_def cs_def]
  have cu: "curve_at (sess w sid) (b_start bd) (b_delta bd) = Some c"
    using assms(9) by (simp add: b curve_at_def)
  have wr: "el_field (els (run_update sid bd w) r) ''tint'' =
      (if entry = ''tint'' then lookup cs (tint_index (sess w sid) bd cs)
       else blend_color (sess w sid) bd cs)"
    by (simp add: run_update_def b on_element_def updateTint_def updateBlend_def set_field_def
          Let_def)
  {
    assume c: "0 \<le> c \<and> c < 1"
    then have fl: "\<lfloor>c\<rfloor> = 0" by (simp add: floor_eq_iff)
    have t: "lookup cs (tint_index (sess w sid) bd cs) = Num (of_int c0)"
      by (simp add: tint_index_def cu Math_floor_def fl lookup_def cs_def)
    have bl: "blend_color (sess w sid) bd cs = Num (of_int (blended c c0 cv))"
      unfolding cs_def using c by (intro blend_color_mix[OF assms(3-6) cu]) simp_all
    show "el_field (els (run_update sid (addParam el r entry (PNum (of_int cv))) w) r) ''tint'' =
             (if entry = ''tint'' then Num (of_int c0) else Num (of_int (blended c c0 cv)))"
      unfolding bd_def[symmetric] wr t bl ..
  }
  {
    assume c: "1 \<le> c \<and> c \<le> 2"
    have i: "tint_index (sess w sid) bd cs = Some 1"
    proof (cases "c = 2")
      case True
      then show ?thesis by (simp add: tint_index_def cu Math_floor_def cs_def)
    next
      case False
      then have "\<lfloor>c\<rfloor> = 1" using c by (simp add: floor_eq_iff)
      then show ?thesis by (simp add: tint_index_def cu Math_floor_def cs_def)
    qed
    have t: "lookup cs (tint_index (sess w sid) bd cs) = Num (of_int cv)"
      unfolding i by (simp add: lookup_def cs_def)
    have bl: "blend_color (sess w sid) bd cs = Num (of_int cv)"
      unfolding cs_def using c by (intro blend_color_hold[OF assms(5,6) cu _ _ assms(7,8)]) simp_all
    show "el_field (els (run_update sid (addParam el r entry (PNum (of_int cv))) w) r) ''tint'' =
             Num (of_int cv)"
      unfolding bd_def[symmetric] wr t bl by simp
  }
qed

lemma color_bindings:
  assumes "entry = ''tint'' \<or> entry = ''blend''"
  shows "(let cs = [el_field el ''tint'', val_of (PNum v)]; b = addParam el r entry (PNum v) in
            b_start b = Num 0 \<and> b_to b = Num 2 \<and> b_delta b = Num 2
            \<and> b_update b = (if entry = ''tint'' then UTint cs else UBlend cs)
            \<and> lookup cs (Some 0) = el_field el ''tint'' \<and> lookup cs (Some 1) = Num v)"
    and "(let cs = [el_field el ''tint'', val_of (PPt p q)]; b = addParam el r entry (PPt p q) in
            b_start b = Num 0 \<and> b_to b = Num 2 \<and> b_delta b = Num 2
            \<and> b_update b = (if entry = ''tint'' then UTint cs else UBlend cs))"
    and "(let b = addParam el r entry (PArr colors) in
            b_start b = Num 0 \<and> b_to b = Num (real (length colors))
            \<and> b_delta b = Num (real (length colors))
            \<and> b_update b = (if entry = ''tint'' then UTint colors else UBlend colors))"
proof -
  from assms consider "entry = ''tint''" | "entry = ''blend''" by blast
  then show "(let cs = [el_field el ''tint'', val_of (PNum v)]; b = addParam el r entry (PNum v) in
            b_start b = Num 0 \<and> b_to b = Num 2 \<and> b_delta b = Num 2
            \<and> b_update b = (if entry = ''tint'' then UTint cs else UBlend cs)
            \<and> lookup cs (Some 0) = el_field el ''tint'' \<and> lookup cs (Some 1) = Num v)"
    by cases (simp_all add: tint_binding blend_binding lookup_def)
  from assms consider "entry = ''tint''" | "entry = ''blend''" by blast
  then show "(let cs = [el_field el ''tint'', val_of (PPt p q)]; b = addParam el r entry (PPt p q) in
            b_start b = Num 0 \<and> b_to b = Num 2 \<and> b_delta b = Num 2
            \<and> b_update b = (if entry = ''tint'' then UTint cs else UBlend cs))"
    by cases (simp_all add: tint_binding blend_binding)
  from assms consider "entry = ''tint''" | "entry = ''blend''" by blast
  then show "(let b = addParam el r entry (PArr colors) in
            b_start b = Num 0 \<and> b_to b = Num (real (length colors))
            \<and> b_delta b = Num (real (length colors))
            \<and> b_update b = (if entry = ''tint'' then UTint colors else UBlend colors))"
    by cases (simp_all add: tint_binding blend_binding)
qed

text \<open>
  C10, as the code has it.  Registering \<open>tint\<close> or \<open>blend\<close> with a value that is not an
  array makes the two-color sequence of the target's current tint and that value,
  with start 0 and goal and delta 2; an array is taken as the sequence itself, with
  start 0 and goal and delta its length.

  For a session with \<open>reverse\<close> and \<open>repeat\<close> unset that was registered with the color
  \<open>cv\<close> on a target whose tint was the color \<open>c0\<close>, and a frame at which the curve
  returns \<open>c\<close>: for \<open>0 \<le> c < 1\<close> the frame writes \<open>c0\<close> for \<open>tint\<close> and the channel-wise
  mix of \<open>c0\<close> and \<open>cv\<close> at the fraction \<open>c\<close> for \<open>blend\<close>, which is \<open>c0\<close> itself at
  \<open>c = 0\<close>; for \<open>1 \<le> c \<le> 2\<close> it writes \<open>cv\<close>.  Driven from clock 0 by positive
  increments that add up to the duration, with a curve that returns 2 at the end, the
  session reports finished and leaves the tint at \<open>cv\<close>.
\<close>

theorem color_registration:
  assumes "entry = ''tint'' \<or> entry = ''blend''"
  shows "(let cs = [el_field el ''tint'', val_of (PNum v)]; b = addParam el r entry (PNum v) in
            b_start b = Num 0 \<and> b_to b = Num 2 \<and> b_delta b = Num 2
            \<and> b_update b = (if entry = ''tint'' then UTint cs else UBlend cs)
            \<and> lookup cs (Some 0) = el_field el ''tint'' \<and> lookup cs (Some 1) = Num v)
       \<and> (let cs = [el_field el ''tint'', val_of (PPt p q)]; b = addParam el r entry (PPt p q) in
            b_start b = Num 0 \<and> b_to b = Num 2 \<and> b_delta b = Num 2
            \<and> b_update b = (if entry = ''tint'' then UTint cs else UBlend cs))
       \<and> (let b = addParam el r entry (PArr colors) in
            b_start b = Num 0 \<and> b_to b = Num (real (length colors))
            \<and> b_delta b = Num (real (length colors))
            \<and> b_update b = (if entry = ''tint'' then UTint colors else UBlend colors))
       \<and> (sess w sid = (Easing_new store [r] [(entry, PNum (of_int cv))] opts)\<lparr>s_time := t\<rparr>
            \<and> el_field (store r) ''tint'' = Num (of_int c0)
            \<and> 0 \<le> c0 \<and> c0 < 2 ^ 24 \<and> 0 \<le> cv \<and> cv < 2 ^ 24
            \<and> \<not> el_destroyed (els w r)
            \<and> \<not> o_reverse opts \<and> \<not> truthy_repeat (o_repeat opts) \<and> o_wait opts = 0
          \<longrightarrow>
            (o_ease opts t (Num 0) (Num 2) (o_duration opts) = Some c \<and> 0 \<le> c \<and> c < 1 \<longrightarrow>
               el_field (els (update_all sid w) r) ''tint'' =
                 (if entry = ''tint'' then Num (of_int c0) else Num (of_int (blended c c0 cv))))
            \<and> blended 0 c0 cv = c0
            \<and> (o_ease opts t (Num 0) (Num 2) (o_duration opts) = Some c \<and> 1 \<le> c \<and> c \<le> 2 \<longrightarrow>
               el_field (els (update_all sid w) r) ''tint'' = Num (of_int cv))
            \<and> (t = 0 \<and> es \<noteq> [] \<and> (\<forall>e\<in>set es. 0 < e) \<and> sum_list es = o_duration opts
               \<and> o_ease opts (o_duration opts) (Num 0) (Num 2) (o_duration opts) = Some 2 \<longrightarrow>
               fst (run_session no_listeners sid es w)
               \<and> el_field (els (snd (run_session no_listeners sid es w)) r) ''tint'' = Num (of_int cv)))"
proof (intro conjI impI)
  show "(let cs = [el_field el ''tint'', val_of (PNum v)]; b = addParam el r entry (PNum v) in
            b_start b = Num 0 \<and> b_to b = Num 2 \<and> b_delta b = Num 2
            \<and> b_update b = (if entry = ''tint'' then UTint cs else UBlend cs)
            \<and> lookup cs (Some 0) = el_field el ''tint'' \<and> lookup cs (Some 1) = Num v)"
    by (rule color_bindings(1)[OF assms])
  show "(let cs = [el_field el ''tint'', val_of (PPt p q)]; b = addParam el r entry (PPt p q) in
            b_start b = Num 0 \<and> b_to b = Num 2 \<and> b_delta b = Num 2
            \<and> b_update b = (if entry = ''tint'' then UTint cs else UBlend cs))"
    by (rule color_bindings(2)[OF assms])
  show "(let b = addParam el r entry (PArr colors) in
            b_start b = Num 0 \<and> b_to b = Num (real (length colors))
            \<and> b_delta b = Num (real (length colors))
            \<and> b_update b = (if entry = ''tint'' then UTint colors else UBlend colors))"
    by (rule color_bindings(3)[OF assms])
next
  let ?b = "addParam (store r) r entry (PNum (of_int cv))"
  assume h0: "sess w sid = (Easing_new store [r] [(entry, PNum (of_int cv))] opts)\<lparr>s_time := t\<rparr>
            \<and> el_field (store r) ''tint'' = Num (of_int c0)
            \<and> 0 \<le> c0 \<and> c0 < 2 ^ 24 \<and> 0 \<le> cv \<and> cv < 2 ^ 24
            \<and> \<not> el_destroyed (els w r)
            \<and> \<not> o_reverse opts \<and> \<not> truthy_repeat (o_repeat opts) \<and> o_wait opts = 0"
  then have s: "s_eases (sess w sid) = [?b]" "s_options (sess w sid) = opts" "s_time (sess w sid) = t"
    by (simp_all add: Easing_new_def)
  have h: "el_field (store r) ''tint'' = Num (of_int c0)" "0 \<le> c0" "c0 < 2 ^ 24" "0 \<le> cv"
    "cv < 2 ^ 24" "\<not> el_destroyed (els w r)" "\<not> o_reverse opts"
    "\<not> truthy_repeat (o_repeat opts)" "o_wait opts = 0"
    using h0 by simp_all
  have hs: "\<not> o_reverse (s_options (sess w sid))"
    "\<not> truthy_repeat (o_repeat (s_options (sess w sid)))"
    using h by (simp_all add: s)
  note be = color_binding_fields(1,2)[OF assms, of "store r" r "of_int cv"]
  have ua: "\<And>x. s_eases (sess x sid) = [?b] \<Longrightarrow> update_all sid x = run_update sid ?b x"
    by (simp add: update_all_def)
  {
    assume c: "o_ease opts t (Num 0) (Num 2) (o_duration opts) = Some c \<and> 0 \<le> c \<and> c < 1"
    show "el_field (els (update_all sid w) r) ''tint'' =
                 (if entry = ''tint'' then Num (of_int c0) else Num (of_int (blended c c0 cv)))"
    proof -
      have cu: "o_ease (s_options (sess w sid)) (s_time (sess w sid)) (Num 0) (Num 2)
           (o_duration (s_options (sess w sid))) = Some c" using c by (simp add: s)
      have rg: "0 \<le> c \<and> c < 1" using c by simp
      show ?thesis unfolding ua[OF s(1)]
        by (rule color_frame(1)[OF assms h(1-5) hs cu rg])
    qed
  }
  {
    assume c: "o_ease opts t (Num 0) (Num 2) (o_duration opts) = Some c \<and> 1 \<le> c \<and> c \<le> 2"
    show "el_field (els (update_all sid w) r) ''tint'' = Num (of_int cv)"
    proof -
      have cu: "o_ease (s_options (sess w sid)) (s_time (sess w sid)) (Num 0) (Num 2)
           (o_duration (s_options (sess w sid))) = Some c" using c by (simp add: s)
      have rg: "1 \<le> c \<and> c \<le> 2" using c by simp
      show ?thesis unfolding ua[OF s(1)]
        by (rule color_frame(2)[OF assms h(1-5) hs cu rg])
    qed
  }
  show "blended 0 c0 cv = c0" by (rule blended_at_start)
  assume r0: "t = 0 \<and> es \<noteq> [] \<and> (\<forall>e\<in>set es. 0 < e) \<and> sum_list es = o_duration opts
               \<and> o_ease opts (o_duration opts) (Num 0) (Num 2) (o_duration opts) = Some 2"
  then have r: "t = 0" "es \<noteq> []" "\<forall>e\<in>set es. 0 < e" "sum_list es = o_duration opts"
    "o_ease opts (o_duration opts) (Num 0) (Num 2) (o_duration opts) = Some 2"
    by simp_all
  have l: "live sid w" using h by (simp add: live_def s be)
  have wt: "o_wait (s_options (sess w sid)) = 0" using h by (simp add: s)
  have sm: "s_time (sess w sid) + sum_list es = o_duration (s_options (sess w sid))"
    using r by (simp add: s)
  from run_to_last[OF l wt r(2,3) sm] obtain w0 where w0: "live sid w0"
    "sess w0 sid = (sess w sid)\<lparr>s_time := o_duration (s_options (sess w sid)) - last es\<rparr>"
    "run_session no_listeners sid es w = Easing_update no_listeners sid (last es) w0"
    by blast
  have s0: "s_eases (sess w0 sid) = [?b]" "s_options (sess w0 sid) = opts"
    "s_time (sess w0 sid) = o_duration opts - last es"
    by (simp_all add: w0(2) s)
  have ns: "\<forall>b\<in>set (s_eases (sess w0 sid)). b_entry b \<noteq> ''shake''"
    using assms by (auto simp: s0 be)
  define wX where "wX = on_session sid (\<lambda>s. s\<lparr>s_time := o_duration (s_options (sess w0 sid))\<rparr>) w0"
  have fin: "fst (Easing_update no_listeners sid (last es) w0)
     \<and> els (snd (Easing_update no_listeners sid (last es) w0)) =
         els (fold (run_update sid) (s_eases (sess w0 sid)) wX)"
    unfolding wX_def
    by (rule step_finish[OF w0(1) _ _ _ _ ns]) (use h in \<open>simp_all add: s0\<close>)
  have sX: "s_eases (sess wX sid) = [?b]" "s_options (sess wX sid) = opts"
    "s_time (sess wX sid) = o_duration opts"
    by (simp_all add: wX_def on_session_simps s0)
  have hX: "\<not> o_reverse (s_options (sess wX sid))"
    "\<not> truthy_repeat (o_repeat (s_options (sess wX sid)))"
    using h by (simp_all add: sX)
  have cX: "o_ease (s_options (sess wX sid)) (s_time (sess wX sid)) (Num 0) (Num 2)
           (o_duration (s_options (sess wX sid))) = Some 2" using r by (simp add: sX)
  have "el_field (els (run_update sid ?b wX) r) ''tint'' = Num (of_int cv)"
    by (rule color_frame(2)[OF assms h(1-5) hX cX]) simp
  then show "fst (run_session no_listeners sid es w)"
    and "el_field (els (snd (run_session no_listeners sid es w)) r) ''tint'' = Num (of_int cv)"
    unfolding w0(3) using fin by (simp_all add: s0)
qed

lemma fading_session:
  "sess fading 0 =
     \<lparr>s_elements = [0],
      s_eases = [\<lparr>b_element = 0, b_entry = ''blend'', b_update = UBlend [Num 16777215, Num 255],
                  b_start = Num 0, b_to = Num 2, b_delta = Num 2\<rparr>],
      s_options = \<lparr>o_ease = linear, o_duration = 100, o_reverse = False, o_repeat = RBool False,
                   o_wait = 0\<rparr>,
      s_time = 0\<rparr>"
  "els fading = (\<lambda>r. sprite)"
  by (simp_all add: fading_def Easing_new_def blend_binding room_def sprite_def plain_def Let_def)

lemma pulsing_session:
  "sess pulsing 0 =
     \<lparr>s_elements = [0],
      s_eases = [\<lparr>b_element = 0, b_entry = ''blend'', b_update = UBlend [Num 16777215, Num 255],
                  b_start = Num 0, b_to = Num 2, b_delta = Num 2\<rparr>],
      s_options = \<lparr>o_ease = linear, o_duration = 100, o_reverse = False, o_repeat = RBool True,
                   o_wait = 0\<rparr>,
      s_time = 0\<rparr>"
  "els pulsing = (\<lambda>r. sprite)"
  by (simp_all add: pulsing_def Easing_new_def blend_binding room_def sprite_def plain_def Let_def)

text \<open>
  C10 on the entry \<open>blend\<close>, with the color 255 and with a sequence of three colors:
  a quarter of the way through the session \<open>fading\<close> the curve returns \<open>1/2\<close> and the
  tint is \<open>0x7f7fff\<close>, half way between white and 255 in every channel; driven by 40
  and 60 the session finishes with the tint at 255.
\<close>

theorem color_registration_witness:
  "(''blend'' = ''tint'' \<or> ''blend'' = ''blend'')
   \<and> addParam sprite 0 ''blend'' (PNum 255) =
       \<lparr>b_element = 0, b_entry = ''blend'', b_update = UBlend [Num 16777215, Num 255],
        b_start = Num 0, b_to = Num 2, b_delta = Num 2\<rparr>
   \<and> addParam sprite 0 ''blend'' (PArr [Num 1, Num 2, Num 3]) =
       \<lparr>b_element = 0, b_entry = ''blend'', b_update = UBlend [Num 1, Num 2, Num 3],
        b_start = Num 0, b_to = Num 3, b_delta = Num 3\<rparr>
   \<and> sess fading 0 = Easing_new (els room) [0] [(''blend'', PNum 255)] (plain linear 100)
   \<and> el_field (els room 0) ''tint'' = Num 16777215
   \<and> \<not> el_destroyed (els fading 0)
   \<and> linear 25 (Num 0) (Num 2) 100 = Some (1 / 2)
   \<and> el_field (els (update_all 0 (on_session 0 (\<lambda>s. s\<lparr>s_time := 25\<rparr>) fading)) 0) ''tint''
       = Num 8355839
   \<and> linear 100 (Num 0) (Num 2) 100 = Some 2
   \<and> fst (run_session no_listeners 0 [40, 60] fading)
   \<and> el_field (els (snd (run_session no_listeners 0 [40, 60] fading)) 0) ''tint'' = Num 255"
  using color_registration[where entry = "''blend''" and el = sprite and r = 0 and v = 255
      and colors = "[Num 1, Num 2, Num 3]" and w = "on_session 0 (\<lambda>s. s\<lparr>s_time := 25\<rparr>) fading"
      and sid = 0 and store = "els room" and cv = 255 and opts = "plain linear 100" and t = 25
      and ?c0.0 = 16777215 and c = "1 / 2"]
    color_registration[where entry = "''blend''" and r = 0
      and w = fading and sid = 0 and store = "els room" and cv = 255 and opts = "plain linear 100"
      and t = 0 and ?c0.0 = 16777215 and es = "[40, 60]"]
  by (simp add: fading_session on_session_simps Easing_new_def blend_binding room_def sprite_def
      plain_def linear_def Let_def blended_def mix_def rgb_def red_def green_def blue_def)

text \<open>
  C10 as stated has the animation end on the registered value whatever the options.
  In the repeating session \<open>pulsing\<close> the tint is 255 half way through the phase,
  and at the end of the phase it is the target's original tint \<open>0xffffff\<close> again:
  when \<open>repeat\<close> or \<open>reverse\<close> is set the last color blends back into the first.
\<close>

theorem blend_returns_to_current_tint:
  "o_repeat (s_options (sess pulsing 0)) = RBool True
   \<and> el_field (els pulsing 0) ''tint'' = Num 16777215
   \<and> el_field (els (snd (run_session no_listeners 0 [50] pulsing)) 0) ''tint'' = Num 255
   \<and> \<not> fst (run_session no_listeners 0 [50, 50] pulsing)
   \<and> el_field (els (snd (run_session no_listeners 0 [50, 50] pulsing)) 0) ''tint'' = Num 16777215"
  by (simp add: pulsing_session sprite_def
      Easing_update_def advance_def first_pass_def Let_def split_beta
      on_session_def on_element_def run_update_def updateBlend_def blend_color_def lookup_def
      Math_floor_def curve_at_def set_field_def nadd_def nsub_def nmul_def
      to_int32_def trunc_def shr_def shl_def drop_bit_eq_div push_bit_eq_mult and255 take_bit_eq_mod
      emit_def with_log_def no_listeners_def repeat_phase_def
      carry_over_def update_all_def repeat_all_def repeat_def linear_def num_def)

end
